theory Spec2Isabelle
  imports Complex_Main
begin

section \<open>Data model of pretty\_midi.py\<close>

text \<open>
  Times, tick scales and BPM values are Python floats in the source; they are modelled as
  \<^typ>\<open>real\<close>, so every statement below is about exact arithmetic. Ticks are absolute
  (the constructor calls \<^verbatim>\<open>make_ticks_abs\<close> first) and are sums of the unsigned delta
  times of a MIDI file, hence \<^typ>\<open>nat\<close>. Channels index a 16-entry array and are
  \<^typ>\<open>nat\<close> as well; pitches, velocities and program numbers are Python ints.
\<close>

datatype error = ValueError | IndexError | ZeroDivisionError

text \<open>
  The events of the parser, by their \<^verbatim>\<open>name\<close>:
  \<^verbatim>\<open>Set Tempo\<close> (tick, get\_bpm()), \<^verbatim>\<open>Program Change\<close> (tick, channel, data[0]),
  \<^verbatim>\<open>Note On\<close> and \<^verbatim>\<open>Note Off\<close> (tick, channel, pitch, velocity),
  \<^verbatim>\<open>Pitch Wheel\<close> (tick, channel, pitch), and every other event (tick).
\<close>

datatype event =
    SetTempo nat real
  | ProgramChange nat nat int
  | NoteOn nat nat int int
  | NoteOff nat nat int int
  | PitchWheel nat nat int
  | Other nat

fun tick :: "event \<Rightarrow> nat" where
  "tick (SetTempo t b) = t"
| "tick (ProgramChange t c p) = t"
| "tick (NoteOn t c p v) = t"
| "tick (NoteOff t c p v) = t"
| "tick (PitchWheel t c p) = t"
| "tick (Other t) = t"

text \<open>The class Note, with fields velocity, pitch, start and end (named endt here).\<close>

record Note =
  velocity :: int
  pitch :: int
  start :: real
  endt :: real

text \<open>The class Instrument, with fields program, is\_drum, events and pitch\_changes.\<close>

record Instrument =
  program :: int
  is_drum :: bool
  events :: "Note list"
  pitch_changes :: "(real \<times> real) list"

definition Note :: "int \<Rightarrow> int \<Rightarrow> real \<Rightarrow> real \<Rightarrow> Note" where
  "Note v p s e = \<lparr>velocity = v, pitch = p, start = s, endt = e\<rparr>"

definition Instrument :: "int \<Rightarrow> bool \<Rightarrow> Instrument" where
  "Instrument prog d = \<lparr>program = prog, is_drum = d, events = [], pitch_changes = []\<rparr>"

text \<open>The class PrettyMIDI, with fields resolution, tick\_scales, tick\_to\_time and instruments.\<close>

record PrettyMIDI =
  resolution :: int
  tick_scales :: "(nat \<times> real) list"
  tick_to_time :: "real list"
  instruments :: "Instrument list"

section \<open>Helpers for Python and numpy primitives\<close>

text \<open>A list comprehension whose element expression can raise: the first error wins.\<close>

fun map_err :: "('a \<Rightarrow> error + 'b) \<Rightarrow> 'a list \<Rightarrow> error + 'b list" where
  "map_err f [] = Inr []"
| "map_err f (x # xs) =
     (case f x of Inl e \<Rightarrow> Inl e
      | Inr y \<Rightarrow> (case map_err f xs of Inl e \<Rightarrow> Inl e | Inr ys \<Rightarrow> Inr (y # ys)))"

text \<open>Python's \<^verbatim>\<open>max\<close> of a list (and \<^verbatim>\<open>np.max\<close>): ValueError on an empty one.\<close>

fun py_max :: "('a::linorder) list \<Rightarrow> error + 'a" where
  "py_max [] = Inl ValueError"
| "py_max (x # xs) = Inr (fold max xs x)"

text \<open>
  \<^verbatim>\<open>60.0/(bpm*resolution)\<close>: a Python float division, which raises
  ZeroDivisionError when the divisor is zero.
\<close>

definition tick_scale_of :: "real \<Rightarrow> int \<Rightarrow> error + real" where
  "tick_scale_of b res =
     (if b * real_of_int res = 0 then Inl ZeroDivisionError
      else Inr (60 / (b * real_of_int res)))"

text \<open>
  numpy's \<^verbatim>\<open>a[s:e] = v\<close> on a one-dimensional array with non-negative bounds: the
  bounds are clipped to the array, the value must have the length of the slice or
  length one (broadcast), otherwise ValueError.
\<close>

definition assign_slice :: "real list \<Rightarrow> nat \<Rightarrow> nat \<Rightarrow> real list \<Rightarrow> error + real list" where
  "assign_slice a s e v =
     (let s' = min s (length a); e' = min e (length a); l = e' - s' in
      if length v = l then Inr (take s' a @ v @ drop (s' + l) a)
      else if length v = 1 then Inr (take s' a @ replicate l (hd v) @ drop (s' + l) a)
      else Inl ValueError)"

text \<open>\<^verbatim>\<open>last + scale*np.arange(n)\<close>.\<close>

definition ramp :: "real \<Rightarrow> real \<Rightarrow> nat \<Rightarrow> real list" where
  "ramp lst sc n = map (\<lambda>i. lst + sc * real i) [0..<n]"

section \<open>PrettyMIDI.\_get\_tempo\_changes\<close>

text \<open>
  The loop over the events of track 0, threading \<^verbatim>\<open>self.tick_scales\<close>. A Set Tempo
  event at tick 0 replaces the whole list; a later one is appended when its tick scale
  differs from the scale of the last entry.
\<close>

fun tempo_loop :: "int \<Rightarrow> event list \<Rightarrow> (nat \<times> real) list \<Rightarrow> error + (nat \<times> real) list" where
  "tempo_loop res [] ts = Inr ts"
| "tempo_loop res (SetTempo t b # evs) ts =
     (if t = 0 then
        (case tick_scale_of b res of Inl e \<Rightarrow> Inl e
         | Inr sc \<Rightarrow> tempo_loop res evs [(0, sc)])
      else if ts = [] then Inl IndexError
      else
        (case tick_scale_of b res of Inl e \<Rightarrow> Inl e
         | Inr sc \<Rightarrow>
             if sc \<noteq> snd (last ts) then tempo_loop res evs (ts @ [(t, sc)])
             else tempo_loop res evs ts))"
| "tempo_loop res (ProgramChange t c p # evs) ts = tempo_loop res evs ts"
| "tempo_loop res (NoteOn t c p v # evs) ts = tempo_loop res evs ts"
| "tempo_loop res (NoteOff t c p v # evs) ts = tempo_loop res evs ts"
| "tempo_loop res (PitchWheel t c p # evs) ts = tempo_loop res evs ts"
| "tempo_loop res (Other t # evs) ts = tempo_loop res evs ts"

definition get_tempo_changes :: "event list list \<Rightarrow> int \<Rightarrow> error + (nat \<times> real) list" where
  "get_tempo_changes midi_data res =
     (case tick_scale_of 120 res of Inl e \<Rightarrow> Inl e
      | Inr sc \<Rightarrow>
          (case midi_data of [] \<Rightarrow> Inl IndexError
           | track0 # _ \<Rightarrow> tempo_loop res track0 [(0, sc)]))"

section \<open>PrettyMIDI.\_update\_tick\_to\_time\<close>

text \<open>
  The loop over \<^verbatim>\<open>zip(tick_scales[:-1], tick_scales[1:])\<close>, threading the array and
  \<^verbatim>\<open>last_end_time\<close>. Reading \<^verbatim>\<open>tick_to_time[end_tick]\<close> out of range raises IndexError.
\<close>

fun tick_loop ::
  "((nat \<times> real) \<times> (nat \<times> real)) list \<Rightarrow> real list \<times> real \<Rightarrow> error + (real list \<times> real)" where
  "tick_loop [] st = Inr st"
| "tick_loop (((start_tick, tick_scale), (end_tick, _)) # ps) (a, last_end_time) =
     (case assign_slice a start_tick (end_tick + 1)
             (ramp last_end_time tick_scale (end_tick + 1 - start_tick)) of
        Inl e \<Rightarrow> Inl e
      | Inr a' \<Rightarrow>
          if end_tick < length a' then tick_loop ps (a', a' ! end_tick)
          else Inl IndexError)"

definition update_tick_to_time :: "(nat \<times> real) list \<Rightarrow> nat \<Rightarrow> error + real list" where
  "update_tick_to_time ts max_tick =
     (case tick_loop (zip (butlast ts) (tl ts)) (replicate max_tick 0, 0) of
        Inl e \<Rightarrow> Inl e
      | Inr (a, last_end_time) \<Rightarrow>
          if ts = [] then Inl IndexError
          else
            (case last ts of (start_tick, tick_scale) \<Rightarrow>
               assign_slice a start_tick (length a)
                 (ramp last_end_time tick_scale (max_tick - start_tick))))"

section \<open>PrettyMIDI.\_get\_instruments\<close>

text \<open>
  The state of one track's pass: the pending note-ons
  (\<^verbatim>\<open>last_note_on\<close>, a dict from (program, is\_drum, pitch) to (note-on time, velocity))
  and the program of each of the 16 channels (\<^verbatim>\<open>current_instrument\<close>). The dict
  \<^verbatim>\<open>pitch_bends\<close> of the source is never read or written.
\<close>

type_synonym note_key = "int \<times> bool \<times> int"

record track_state =
  last_note_on :: "note_key \<rightharpoonup> (real \<times> int)"
  current_instrument :: "int list"

definition new_track_state :: track_state where
  "new_track_state = \<lparr>last_note_on = Map.empty, current_instrument = replicate 16 0\<rparr>"

text \<open>
  The scan of a matched note-off over \<^verbatim>\<open>self.instruments\<close>: the Note is appended to
  every instrument with the program and drum flag (the loop has no break).
\<close>

definition matches :: "int \<Rightarrow> bool \<Rightarrow> Instrument \<Rightarrow> bool" where
  "matches prog d i = (program i = prog \<and> is_drum i = d)"

definition add_note :: "int \<Rightarrow> bool \<Rightarrow> Note \<Rightarrow> Instrument list \<Rightarrow> Instrument list" where
  "add_note prog d n insts =
     map (\<lambda>i. if matches prog d i then i\<lparr>events := events i @ [n]\<rparr> else i) insts"

text \<open>
  The branch of a Note Off, or of a Note On with velocity 0. When an instrument matched,
  the Note carries the velocity stored at the note-on (line 144 of the source); when
  none matched, the new instrument gets a Note with \<^verbatim>\<open>event.velocity\<close>, the velocity
  of the note-off event itself (line 151).
\<close>

definition note_off ::
  "real list \<Rightarrow> nat \<Rightarrow> nat \<Rightarrow> int \<Rightarrow> int \<Rightarrow> track_state \<times> Instrument list
     \<Rightarrow> error + (track_state \<times> Instrument list)" where
  "note_off tt t ch p v = (\<lambda>(st, insts).
     if length (current_instrument st) \<le> ch then Inl IndexError
     else
       (let prog = current_instrument st ! ch; d = (ch = 9) in
        case last_note_on st (prog, d, p) of
          None \<Rightarrow> Inr (st, insts)
        | Some (start_time, vel) \<Rightarrow>
            if length tt \<le> t then Inl IndexError
            else
              (let end_time = tt ! t;
                   instrument_exists = list_ex (matches prog d) insts;
                   insts' = add_note prog d (Note vel p start_time end_time) insts;
                   insts'' =
                     (if \<not> instrument_exists
                      then insts' @ [(Instrument prog d)\<lparr>events := [Note v p start_time end_time]\<rparr>]
                      else insts')
               in Inr (st\<lparr>last_note_on := (last_note_on st)((prog, d, p) := None)\<rparr>, insts''))))"

text \<open>
  The scan of a Pitch Wheel event: \<^verbatim>\<open>current_instrument[event.channel]\<close> is read for each
  instrument of the list, and \<^verbatim>\<open>tick_to_time[event.tick]\<close> for each matching one.
\<close>

fun pitch_wheel_scan ::
  "real list \<Rightarrow> int list \<Rightarrow> nat \<Rightarrow> nat \<Rightarrow> real \<Rightarrow> Instrument list \<Rightarrow> error + Instrument list" where
  "pitch_wheel_scan tt cur t ch b [] = Inr []"
| "pitch_wheel_scan tt cur t ch b (i # insts) =
     (if length cur \<le> ch then Inl IndexError
      else if matches (cur ! ch) (ch = 9) i then
        (if length tt \<le> t then Inl IndexError
         else
           (case pitch_wheel_scan tt cur t ch b insts of Inl e \<Rightarrow> Inl e
            | Inr insts' \<Rightarrow> Inr (i\<lparr>pitch_changes := pitch_changes i @ [(tt ! t, b)]\<rparr> # insts')))
      else
        (case pitch_wheel_scan tt cur t ch b insts of Inl e \<Rightarrow> Inl e
         | Inr insts' \<Rightarrow> Inr (i # insts')))"

text \<open>One iteration of the loop over the events of a track.\<close>

fun handle_event ::
  "real list \<Rightarrow> event \<Rightarrow> track_state \<times> Instrument list \<Rightarrow> error + (track_state \<times> Instrument list)" where
  "handle_event tt (ProgramChange t ch prog) (st, insts) =
     (if length (current_instrument st) \<le> ch then Inl IndexError
      else Inr (st\<lparr>current_instrument := (current_instrument st)[ch := prog]\<rparr>, insts))"
| "handle_event tt (NoteOn t ch p v) (st, insts) =
     (if v > 0 then
        (if length tt \<le> t \<or> length (current_instrument st) \<le> ch then Inl IndexError
         else Inr (st\<lparr>last_note_on :=
                        (last_note_on st)((current_instrument st ! ch, ch = 9, p) \<mapsto> (tt ! t, v))\<rparr>,
                   insts))
      else if v = 0 then note_off tt t ch p v (st, insts)
      else Inr (st, insts))"
| "handle_event tt (NoteOff t ch p v) (st, insts) = note_off tt t ch p v (st, insts)"
| "handle_event tt (PitchWheel t ch p) (st, insts) =
     (case pitch_wheel_scan tt (current_instrument st) t ch (2 * real_of_int p / 8192) insts of
        Inl e \<Rightarrow> Inl e
      | Inr insts' \<Rightarrow> Inr (st, insts'))"
| "handle_event tt (SetTempo t b) (st, insts) = Inr (st, insts)"
| "handle_event tt (Other t) (st, insts) = Inr (st, insts)"

fun handle_events ::
  "real list \<Rightarrow> event list \<Rightarrow> track_state \<times> Instrument list \<Rightarrow> error + (track_state \<times> Instrument list)" where
  "handle_events tt [] s = Inr s"
| "handle_events tt (ev # evs) s =
     (case handle_event tt ev s of Inl e \<Rightarrow> Inl e | Inr s' \<Rightarrow> handle_events tt evs s')"

text \<open>The loop over the tracks: the per-track state is created afresh for each track.\<close>

fun handle_tracks :: "real list \<Rightarrow> event list list \<Rightarrow> Instrument list \<Rightarrow> error + Instrument list" where
  "handle_tracks tt [] insts = Inr insts"
| "handle_tracks tt (track # tracks) insts =
     (case handle_events tt track (new_track_state, insts) of Inl e \<Rightarrow> Inl e
      | Inr (st, insts') \<Rightarrow> handle_tracks tt tracks insts')"

definition get_instruments :: "real list \<Rightarrow> event list list \<Rightarrow> error + Instrument list" where
  "get_instruments tt midi_data = handle_tracks tt midi_data []"

section \<open>PrettyMIDI.\_\_init\_\_\<close>

text \<open>
  \<^verbatim>\<open>max([max([event.tick for event in track]) for track in midi_data]) + 1\<close>: the inner and
  the outer \<^verbatim>\<open>max\<close> raise ValueError on an empty list.
\<close>

definition compute_max_tick :: "event list list \<Rightarrow> error + nat" where
  "compute_max_tick midi_data =
     (case map_err (\<lambda>track. py_max (map tick track)) midi_data of Inl e \<Rightarrow> Inl e
      | Inr ms \<Rightarrow> (case py_max ms of Inl e \<Rightarrow> Inl e | Inr m \<Rightarrow> Inr (m + 1)))"

text \<open>
  The constructor, on the parsed tracks (ticks already absolute) and the resolution. The
  warning printed for tempo events on later tracks has no effect on the result.
\<close>

definition init :: "event list list \<Rightarrow> int \<Rightarrow> error + PrettyMIDI" where
  "init midi_data res =
     (case get_tempo_changes midi_data res of Inl e \<Rightarrow> Inl e
      | Inr ts \<Rightarrow>
     (case compute_max_tick midi_data of Inl e \<Rightarrow> Inl e
      | Inr max_tick \<Rightarrow>
     (case update_tick_to_time ts max_tick of Inl e \<Rightarrow> Inl e
      | Inr tt \<Rightarrow>
     (case get_instruments tt midi_data of Inl e \<Rightarrow> Inl e
      | Inr insts \<Rightarrow>
          Inr \<lparr>resolution = res, tick_scales = ts, tick_to_time = tt, instruments = insts\<rparr>))))"

section \<open>PrettyMIDI.get\_tempii\<close>

text \<open>
  For each entry of \<^verbatim>\<open>tick_scales\<close>: the time of its tick (IndexError out of range) and
  \<^verbatim>\<open>60.0/(tick_scale*self.resolution)\<close> (ZeroDivisionError on a zero divisor).
\<close>

definition get_tempii :: "PrettyMIDI \<Rightarrow> error + (real list \<times> real list)" where
  "get_tempii self =
     (case map_err (\<lambda>(t, tick_scale).
              if length (tick_to_time self) \<le> t then Inl IndexError
              else if tick_scale * real_of_int (resolution self) = 0 then Inl ZeroDivisionError
              else Inr (tick_to_time self ! t, 60 / (tick_scale * real_of_int (resolution self))))
            (tick_scales self) of
        Inl e \<Rightarrow> Inl e
      | Inr rs \<Rightarrow> Inr (map fst rs, map snd rs))"

section \<open>numpy arrays of the piano roll\<close>

text \<open>
  A two-dimensional array is the list of its rows. The piano roll has dtype int16: a sum
  stored into it wraps around modulo \<open>2^16\<close>, and a float stored into it is truncated
  towards zero. Array dimensions and slice bounds that the source gives as floats are
  truncated to integers, as the numpy of the source's time did.
\<close>

definition py_int :: "real \<Rightarrow> int" where
  "py_int x = (if 0 \<le> x then \<lfloor>x\<rfloor> else \<lceil>x\<rceil>)"

definition to_int16 :: "int \<Rightarrow> int" where
  "to_int16 x = (x + 32768) mod 65536 - 32768"

text \<open>\<^verbatim>\<open>np.zeros((r, d))\<close> and \<^verbatim>\<open>np.zeros(d)\<close>: ValueError on a negative dimension.\<close>

definition np_dim :: "real \<Rightarrow> error + nat" where
  "np_dim d = (if py_int d < 0 then Inl ValueError else Inr (nat (py_int d)))"

definition zeros :: "nat \<Rightarrow> nat \<Rightarrow> int list list" where
  "zeros r c = replicate r (replicate c 0)"

text \<open>
  A slice bound of Python, for a sequence of length \<open>n\<close>: a negative bound counts from
  the end, and the result is clipped to \<open>0..n\<close>.
\<close>

definition slice_bound :: "int \<Rightarrow> nat \<Rightarrow> nat" where
  "slice_bound i n = (if i < 0 then nat (max 0 (i + int n)) else min (nat i) n)"

definition py_slice :: "'a list \<Rightarrow> int \<Rightarrow> int \<Rightarrow> 'a list" where
  "py_slice xs i j =
     (let a = slice_bound i (length xs); b = slice_bound j (length xs)
      in take (b - a) (drop a xs))"

text \<open>\<^verbatim>\<open>p.shape[1]\<close> of an array with at least one row.\<close>

definition shape1 :: "'a list list \<Rightarrow> nat" where
  "shape1 m = (case m of [] \<Rightarrow> 0 | r # _ \<Rightarrow> length r)"

text \<open>\<^verbatim>\<open>m[:, i:j]\<close>, and \<^verbatim>\<open>m[:, i:j] = block\<close> for a block of the slice's shape.\<close>

definition col_slice :: "'a list list \<Rightarrow> int \<Rightarrow> int \<Rightarrow> 'a list list" where
  "col_slice m i j = map (\<lambda>row. py_slice row i j) m"

definition write_cols :: "int list list \<Rightarrow> int \<Rightarrow> int list list \<Rightarrow> int list list" where
  "write_cols m i block =
     map (\<lambda>(row, brow).
            (let a = slice_bound i (length row)
             in take a row @ brow @ drop (a + length brow) row))
         (zip m block)"

section \<open>Instrument.get\_piano\_roll\<close>

text \<open>
  \<^verbatim>\<open>piano_roll[note.pitch, int(note.start*fs):int(note.end*fs)] += note.velocity\<close>, with
  \<^verbatim>\<open>fs = 100\<close>: the row index raises IndexError outside \<open>-128..127\<close> and counts from the
  end when negative; the column slice is clipped.
\<close>

definition add_note_roll :: "Note \<Rightarrow> int list list \<Rightarrow> error + int list list" where
  "add_note_roll n pr =
     (if pitch n < - int (length pr) \<or> int (length pr) \<le> pitch n then Inl IndexError
      else
        (let r = nat (if pitch n < 0 then pitch n + int (length pr) else pitch n);
             row = pr ! r;
             a = slice_bound (py_int (start n * 100)) (length row);
             b = slice_bound (py_int (endt n * 100)) (length row)
         in Inr (pr[r := map (\<lambda>c. if a \<le> c \<and> c < b then to_int16 (row ! c + velocity n) else row ! c)
                           [0..<length row]])))"

fun add_notes :: "Note list \<Rightarrow> int list list \<Rightarrow> error + int list list" where
  "add_notes [] pr = Inr pr"
| "add_notes (n # ns) pr =
     (case add_note_roll n pr of Inl e \<Rightarrow> Inl e | Inr pr' \<Rightarrow> add_notes ns pr')"

text \<open>
  The pitch-bend loop. \<^verbatim>\<open>bent_roll[bend_int:] = piano_roll[:-bend_int, ...]\<close> moves the rows
  up by \<open>bend_int\<close> (down for a negative one), the rows moved in are zero.
\<close>

definition shift_rows :: "int \<Rightarrow> nat \<Rightarrow> real list list \<Rightarrow> real list list" where
  "shift_rows bend_int w block =
     (if 0 < bend_int then
        replicate (min (nat bend_int) (length block)) (replicate w 0) @
          take (length block - nat bend_int) block
      else if bend_int < 0 then
        drop (nat (- bend_int)) block @
          replicate (min (nat (- bend_int)) (length block)) (replicate w 0)
      else block)"

text \<open>
  \<^verbatim>\<open>bent_roll[1:] = (1 - bend_decimal)*bent_roll[1:] + bend_decimal*bent_roll[:-1]\<close> for a
  bend upwards, and
  \<^verbatim>\<open>bent_roll[:-1] = (1 - bend_decimal)*bent_roll[:-1] + bend_decimal*bent_roll[1:]\<close> for
  a bend downwards; the right-hand side is computed from the old rows.
\<close>

definition mix_rows :: "real \<Rightarrow> real list \<Rightarrow> real list \<Rightarrow> real list" where
  "mix_rows d r r' = map (\<lambda>(x, y). (1 - d) * x + d * y) (zip r r')"

definition blend_up :: "real \<Rightarrow> real list list \<Rightarrow> real list list" where
  "blend_up d rows =
     (case rows of [] \<Rightarrow> []
      | r0 # rs \<Rightarrow> r0 # map (\<lambda>(r, r'). mix_rows d r r') (zip rs (butlast rows)))"

definition blend_down :: "real \<Rightarrow> real list list \<Rightarrow> real list list" where
  "blend_down d rows =
     (case rows of [] \<Rightarrow> []
      | _ # rs \<Rightarrow> map (\<lambda>(r, r'). mix_rows d r r') (zip (butlast rows) rs) @ [last rows])"

text \<open>
  One iteration of the loop, for a segment from \<^verbatim>\<open>(start, bend)\<close> to the time \<^verbatim>\<open>end\<close> of the
  next pitch change. \<^verbatim>\<open>np.zeros\<close> raises ValueError on a negative width; when
  \<^verbatim>\<open>bend_int\<close> is not 0, copying the block of the piano roll into \<^verbatim>\<open>bent_roll\<close> and
  back needs the clipped slice to have the width of \<^verbatim>\<open>bent_roll\<close>, otherwise ValueError.
  The result is stored into the int16 piano roll.
\<close>

definition bend_segment :: "real \<Rightarrow> real \<Rightarrow> real \<Rightarrow> int list list \<Rightarrow> error + int list list" where
  "bend_segment start_time bend end_time pr =
     (if \<bar>bend\<bar> < 1 / 8192 then Inr pr
      else
        (let bend_int = (if 0 < bend then 1 else if bend < 0 then - 1 else 0) * \<lfloor>\<bar>bend\<bar>\<rfloor>;
             bend_decimal = \<bar>bend - real_of_int bend_int\<bar>;
             i = py_int (start_time * 100); j = py_int (end_time * 100)
         in if j - i < 0 then Inl ValueError
            else
              (let block = col_slice pr i j
               in if bend_int \<noteq> 0 \<and> int (shape1 block) \<noteq> j - i then Inl ValueError
                  else
                    (let shifted = shift_rows bend_int (shape1 block) (map (map real_of_int) block);
                         bent_roll = (if 0 \<le> bend then blend_up bend_decimal shifted
                                      else blend_down bend_decimal shifted)
                     in Inr (write_cols pr i (map (map (\<lambda>x. to_int16 (py_int x))) bent_roll))))))"

fun bend_loop :: "((real \<times> real) \<times> (real \<times> real)) list \<Rightarrow> int list list \<Rightarrow> error + int list list" where
  "bend_loop [] pr = Inr pr"
| "bend_loop (((start_time, bend), (end_time, _)) # ps) pr =
     (case bend_segment start_time bend end_time pr of Inl e \<Rightarrow> Inl e
      | Inr pr' \<Rightarrow> bend_loop ps pr')"

text \<open>
  The piano roll at 100 Hz of an instrument that has events and is not a drum: the zero
  matrix of \<^verbatim>\<open>fs*end_time\<close> columns, the notes added, the pitch bends applied.
\<close>

definition native_piano_roll :: "Instrument \<Rightarrow> error + int list list" where
  "native_piano_roll self =
     (case py_max (map endt (events self)) of Inl e \<Rightarrow> Inl e
      | Inr end_time \<Rightarrow>
     (case np_dim (100 * end_time) of Inl e \<Rightarrow> Inl e
      | Inr cols \<Rightarrow>
     (case add_notes (events self) (zeros 128 cols) of Inl e \<Rightarrow> Inl e
      | Inr pr \<Rightarrow>
          bend_loop (zip (pitch_changes self) (tl (pitch_changes self) @ [(end_time, 0)])) pr)))"

text \<open>
  \<^verbatim>\<open>np.mean(piano_roll[:, start:end], axis=1)\<close> stored into a column of the int16 result:
  the mean of the slice of each row, truncated. The mean of an empty slice is NaN in
  numpy, whose cast to int16 is not defined by the source; the model has 0 there.
\<close>

definition mean_int16 :: "int list \<Rightarrow> int" where
  "mean_int16 xs = (if xs = [] then 0 else py_int (real_of_int (sum_list xs) / real (length xs)))"

text \<open>
  The resampling onto \<^verbatim>\<open>times\<close>: the result is allocated with \<^verbatim>\<open>times.shape[0]\<close> zero
  columns, and the loop over \<^verbatim>\<open>zip(times[:-1], times[1:])\<close> writes column \<open>n\<close> for each
  \<open>n\<close> with a following entry in \<^verbatim>\<open>times\<close>.
\<close>

definition integrate :: "int list list \<Rightarrow> real list \<Rightarrow> int list list" where
  "integrate piano_roll times' =
     map (\<lambda>row.
            map (\<lambda>n. if n + 1 < length times'
                      then mean_int16 (py_slice row (py_int (times' ! n * 100))
                                                    (py_int (times' ! (n + 1) * 100)))
                      else 0)
                [0..<length times'])
         piano_roll"

definition get_piano_roll :: "Instrument \<Rightarrow> real list option \<Rightarrow> error + int list list" where
  "get_piano_roll self times' =
     (if events self = [] then Inr (replicate 128 [])
      else if is_drum self then
        (case py_max (map endt (events self)) of Inl e \<Rightarrow> Inl e
         | Inr end_time \<Rightarrow>
        (case np_dim (100 * end_time) of Inl e \<Rightarrow> Inl e
         | Inr cols \<Rightarrow>
             (case times' of None \<Rightarrow> Inr (zeros 128 cols)
              | Some ts \<Rightarrow> Inr (zeros 128 (length ts)))))
      else
        (case native_piano_roll self of Inl e \<Rightarrow> Inl e
         | Inr piano_roll \<Rightarrow>
             (case times' of None \<Rightarrow> Inr piano_roll
              | Some ts \<Rightarrow> Inr (integrate piano_roll ts))))"

section \<open>PrettyMIDI.get\_piano\_roll\<close>

text \<open>\<^verbatim>\<open>piano_roll[:, :roll.shape[1]] += roll\<close>, in int16.\<close>

definition add_roll :: "int list list \<Rightarrow> int list list \<Rightarrow> int list list" where
  "add_roll piano_roll roll =
     map (\<lambda>(row, r). map (\<lambda>(x, y). to_int16 (x + y)) (zip row r) @ drop (length r) row)
         (zip piano_roll roll)"

text \<open>
  The rolls of all instruments are summed into a zero matrix of the largest column count;
  \<^verbatim>\<open>np.max\<close> of the empty list of column counts raises ValueError.
\<close>

definition PrettyMIDI_get_piano_roll :: "PrettyMIDI \<Rightarrow> real list option \<Rightarrow> error + int list list" where
  "PrettyMIDI_get_piano_roll self times' =
     (case map_err (\<lambda>i. get_piano_roll i times') (instruments self) of Inl e \<Rightarrow> Inl e
      | Inr piano_rolls \<Rightarrow>
          (case py_max (map shape1 piano_rolls) of Inl e \<Rightarrow> Inl e
           | Inr cols \<Rightarrow> Inr (fold (\<lambda>roll acc. add_roll acc roll) piano_rolls (zeros 128 cols))))"

section \<open>Instrument.synthesize\<close>

text \<open>
  Samples are floats in the source and reals here. The sampling rate \<^verbatim>\<open>fs\<close> is a real;
  the waveshape \<^verbatim>\<open>wave\<close> (\<^verbatim>\<open>np.sin\<close> by default) is a function applied to each element
  of its argument array.
\<close>

text \<open>\<^verbatim>\<open>np.linspace(1, 0, num)\<close>, for the truncated \<^verbatim>\<open>num\<close>.\<close>

definition linspace_1_0 :: "nat \<Rightarrow> real list" where
  "linspace_1_0 num =
     (if num = 1 then [1] else map (\<lambda>k. 1 - real k / real (num - 1)) [0..<num])"

text \<open>
  \<^verbatim>\<open>a[i:j] += v\<close> on a one-dimensional float array: the slice is clipped, and \<^verbatim>\<open>v\<close> must
  have the length of the slice or length one, otherwise ValueError.
\<close>

definition add_slice :: "real list \<Rightarrow> int \<Rightarrow> int \<Rightarrow> real list \<Rightarrow> error + real list" where
  "add_slice a i j v =
     (let s = slice_bound i (length a); e = slice_bound j (length a); l = e - s in
      if length v = l then
        Inr (take s a @ map (\<lambda>(x, y). x + y) (zip (take l (drop s a)) v) @ drop (s + l) a)
      else if length v = 1 then
        Inr (take s a @ map (\<lambda>x. x + hd v) (take l (drop s a)) @ drop (s + l) a)
      else Inl ValueError)"

text \<open>
  The envelope of a note of \<open>k\<close> samples: the exponential decay, its end multiplied by
  \<^verbatim>\<open>fade_out\<close> when the note is longer than it (\<^verbatim>\<open>envelope[-n:] *= fade_out\<close> raises
  ValueError for an empty \<^verbatim>\<open>fade_out\<close>, since \<^verbatim>\<open>envelope[-0:]\<close> is the whole array), or
  the whole of it multiplied by a linear ramp otherwise; then the velocity.
\<close>

definition note_envelope :: "real \<Rightarrow> real list \<Rightarrow> nat \<Rightarrow> int \<Rightarrow> error + real list" where
  "note_envelope fs fade_out k vel =
     (let envelope = map (\<lambda>i. exp (- real i / (1 * fs))) [0..<k] in
      if k > length fade_out then
        (if fade_out = [] then Inl ValueError
         else Inr (map (\<lambda>x. x * real_of_int vel)
                     (take (k - length fade_out) envelope @
                      map (\<lambda>(x, y). x * y) (zip (drop (k - length fade_out) envelope) fade_out))))
      else Inr (map (\<lambda>x. x * real_of_int vel)
                  (map (\<lambda>(x, y). x * y) (zip envelope (linspace_1_0 k)))))"

text \<open>One iteration of the loop over the notes.\<close>

definition synthesize_note ::
  "real \<Rightarrow> (real \<Rightarrow> real) \<Rightarrow> real list \<Rightarrow> Note \<Rightarrow> real list \<Rightarrow> error + real list" where
  "synthesize_note fs wave fade_out n synthesized =
     (let start_sample = py_int (fs * start n);
          end_sample = py_int (fs * endt n);
          k = nat (end_sample - start_sample);
          frequency = 440 * (2 powr ((real_of_int (pitch n) - 69) / 12));
          note_waveform = map (\<lambda>i. wave (2 * pi * frequency * real i / fs)) [0..<k]
      in case note_envelope fs fade_out k (velocity n) of Inl e \<Rightarrow> Inl e
         | Inr envelope \<Rightarrow>
             add_slice synthesized start_sample end_sample
               (map (\<lambda>(x, y). x * y) (zip envelope note_waveform)))"

fun synthesize_notes ::
  "real \<Rightarrow> (real \<Rightarrow> real) \<Rightarrow> real list \<Rightarrow> Note list \<Rightarrow> real list \<Rightarrow> error + real list" where
  "synthesize_notes fs wave fade_out [] synthesized = Inr synthesized"
| "synthesize_notes fs wave fade_out (n # ns) synthesized =
     (case synthesize_note fs wave fade_out n synthesized of Inl e \<Rightarrow> Inl e
      | Inr synthesized' \<Rightarrow> synthesize_notes fs wave fade_out ns synthesized')"

text \<open>
  The buffer has \<^verbatim>\<open>fs*(max([n.end for n in self.events]) + 1)\<close> samples; Python's
  \<^verbatim>\<open>max\<close> raises ValueError when the instrument has no events. A drum instrument returns
  the zero buffer.
\<close>

definition synthesize :: "Instrument \<Rightarrow> real \<Rightarrow> (real \<Rightarrow> real) \<Rightarrow> error + real list" where
  "synthesize self fs wave =
     (case py_max (map endt (events self)) of Inl e \<Rightarrow> Inl e
      | Inr end_time \<Rightarrow>
     (case np_dim (fs * (end_time + 1)) of Inl e \<Rightarrow> Inl e
      | Inr len \<Rightarrow>
          if is_drum self then Inr (replicate len 0)
          else synthesize_notes fs wave (linspace_1_0 (nat (py_int (0.1 * fs))))
                 (events self) (replicate len 0)))"

section \<open>PrettyMIDI.synthesize\<close>

text \<open>\<^verbatim>\<open>synthesized[:waveform.shape[0]] += waveform\<close>.\<close>

definition add_waveform :: "real list \<Rightarrow> real list \<Rightarrow> real list" where
  "add_waveform synthesized waveform =
     map (\<lambda>(x, y). x + y) (zip synthesized waveform) @ drop (length waveform) synthesized"

text \<open>
  The sum of the waveforms of all instruments, in a zero buffer of the largest length;
  \<^verbatim>\<open>np.max\<close> of the empty list of lengths raises ValueError.
\<close>

definition mix_waveforms :: "PrettyMIDI \<Rightarrow> real \<Rightarrow> (real \<Rightarrow> real) \<Rightarrow> error + real list" where
  "mix_waveforms self fs wave =
     (case map_err (\<lambda>i. synthesize i fs wave) (instruments self) of Inl e \<Rightarrow> Inl e
      | Inr waveforms \<Rightarrow>
          (case py_max (map length waveforms) of Inl e \<Rightarrow> Inl e
           | Inr len \<Rightarrow> Inr (fold (\<lambda>waveform acc. add_waveform acc waveform) waveforms
                               (replicate len 0))))"

text \<open>
  The division of a sample by the peak. A numpy division by zero does not raise: it
  yields NaN for \<open>0 / 0\<close> and an infinity otherwise (with a warning). These results,
  which are not real numbers, are \<open>None\<close> in the model.
\<close>

definition np_divide :: "real \<Rightarrow> real \<Rightarrow> real option" where
  "np_divide x p = (if p = 0 then None else Some (x / p))"

text \<open>
  \<^verbatim>\<open>synthesized /= np.abs(synthesized).max()\<close>: the \<^verbatim>\<open>max\<close> of an empty array raises
  ValueError.
\<close>

definition normalize :: "real list \<Rightarrow> error + real option list" where
  "normalize synthesized =
     (case py_max (map abs synthesized) of Inl e \<Rightarrow> Inl e
      | Inr peak \<Rightarrow> Inr (map (\<lambda>x. np_divide x peak) synthesized))"

definition PrettyMIDI_synthesize ::
  "PrettyMIDI \<Rightarrow> real \<Rightarrow> (real \<Rightarrow> real) \<Rightarrow> error + real option list" where
  "PrettyMIDI_synthesize self fs wave =
     (case mix_waveforms self fs wave of Inl e \<Rightarrow> Inl e
      | Inr synthesized \<Rightarrow> normalize synthesized)"

section \<open>Notions used to state the properties\<close>

text \<open>The identity of an instrument in the list: its program and its drum flag.\<close>

definition inst_key :: "Instrument \<Rightarrow> int \<times> bool" where
  "inst_key i = (program i, is_drum i)"

definition distinct_keys :: "Instrument list \<Rightarrow> bool" where
  "distinct_keys insts = distinct (map inst_key insts)"

definition total_notes :: "Instrument list \<Rightarrow> nat" where
  "total_notes insts = sum_list (map (\<lambda>i. length (events i)) insts)"

text \<open>
  An event is a matched note-off in a track state when it is a Note Off, or a Note On with
  velocity 0, whose key (program of its channel, drum flag, pitch) is pending.
\<close>

fun matched_note_off :: "track_state \<Rightarrow> event \<Rightarrow> bool" where
  "matched_note_off st (NoteOff t ch p v) =
     (ch < length (current_instrument st) \<and>
      last_note_on st (current_instrument st ! ch, ch = 9, p) \<noteq> None)"
| "matched_note_off st (NoteOn t ch p v) =
     (v = 0 \<and> ch < length (current_instrument st) \<and>
      last_note_on st (current_instrument st ! ch, ch = 9, p) \<noteq> None)"
| "matched_note_off st _ = False"

text \<open>
  The ticks of the Set Tempo events of a track that are not at tick 0, and the BPM values
  of all its Set Tempo events, in the order of the track.
\<close>

fun tempo_ticks :: "event list \<Rightarrow> nat list" where
  "tempo_ticks [] = []"
| "tempo_ticks (SetTempo t b # evs) = (if t = 0 then tempo_ticks evs else t # tempo_ticks evs)"
| "tempo_ticks (_ # evs) = tempo_ticks evs"

fun tempo_bpms :: "event list \<Rightarrow> real list" where
  "tempo_bpms [] = []"
| "tempo_bpms (SetTempo t b # evs) = b # tempo_bpms evs"
| "tempo_bpms (_ # evs) = tempo_bpms evs"

text \<open>
  The pairs of consecutive elements of a list, that is
  \<^verbatim>\<open>zip(xs[:-1], xs[1:])\<close> written by recursion on the list.
\<close>

fun consecutive :: "'a list \<Rightarrow> ('a \<times> 'a) list" where
  "consecutive (x # y # r) = (x, y) # consecutive (y # r)"
| "consecutive [x] = []"
| "consecutive [] = []"

section \<open>Properties of the reconstruction\<close>

subsection \<open>The keys of the instrument list stay distinct\<close>

lemma add_note_keys: "map inst_key (add_note prog d n insts) = map inst_key insts"
  by (induction insts) (auto simp: add_note_def inst_key_def)

lemma list_ex_matches: "list_ex (matches prog d) insts \<longleftrightarrow> (prog, d) \<in> set (map inst_key insts)"
  by (induction insts) (auto simp: matches_def inst_key_def)

lemma filter_matches_le1:
  "distinct_keys insts \<Longrightarrow> length (filter (matches prog d) insts) \<le> 1"
proof (induction insts)
  case Nil then show ?case by simp
next
  case (Cons i insts)
  have "matches prog d i \<Longrightarrow> filter (matches prog d) insts = []"
    using Cons.prems
    by (auto simp: distinct_keys_def matches_def inst_key_def filter_empty_conv image_iff)
  then show ?case using Cons by (auto simp: distinct_keys_def)
qed

lemma total_notes_add_note:
  "total_notes (add_note prog d n insts) = total_notes insts + length (filter (matches prog d) insts)"
  by (induction insts) (auto simp: add_note_def total_notes_def)

lemma filter_matches_ex:
  "list_ex (matches prog d) insts \<Longrightarrow> distinct_keys insts \<Longrightarrow> length (filter (matches prog d) insts) = 1"
proof -
  assume a: "list_ex (matches prog d) insts" and b: "distinct_keys insts"
  from a have "filter (matches prog d) insts \<noteq> []"
    by (auto simp: list_ex_iff filter_empty_conv)
  then have "length (filter (matches prog d) insts) \<ge> 1"
    by (cases "filter (matches prog d) insts") auto
  with filter_matches_le1[OF b, of prog d] show ?thesis by linarith
qed

lemma filter_matches_none:
  "\<not> list_ex (matches prog d) insts \<Longrightarrow> filter (matches prog d) insts = []"
  by (auto simp: list_ex_iff filter_empty_conv)

lemma note_off_distinct:
  assumes "distinct_keys insts" "note_off tt t ch p v (st, insts) = Inr (st', insts')"
  shows "distinct_keys insts'"
  using assms
  by (auto simp: note_off_def Let_def distinct_keys_def add_note_keys list_ex_matches
        Instrument_def inst_key_def[of "\<lparr>program = _, is_drum = _, events = _, pitch_changes = _\<rparr>"]
      split: if_splits option.splits)

lemma total_notes_append: "total_notes (a @ [i]) = total_notes a + length (events i)"
  by (simp add: total_notes_def)

lemma note_off_total:
  assumes "distinct_keys insts" "note_off tt t ch p v (st, insts) = Inr (st', insts')"
  shows "total_notes insts' = total_notes insts +
     (if last_note_on st (current_instrument st ! ch, ch = 9, p) \<noteq> None then 1 else 0)"
  using assms
  by (auto simp: note_off_def Let_def total_notes_add_note filter_matches_ex filter_matches_none
         Instrument_def total_notes_append
      split: if_splits option.splits)

lemma pitch_wheel_scan_keys:
  "pitch_wheel_scan tt cur t ch b insts = Inr insts' \<Longrightarrow>
     map inst_key insts' = map inst_key insts \<and> map events insts' = map events insts"
  by (induction insts arbitrary: insts') (auto simp: inst_key_def split: if_splits sum.splits)

lemma handle_event_distinct:
  assumes "distinct_keys insts" "handle_event tt ev (st, insts) = Inr (st', insts')"
  shows "distinct_keys insts'"
proof (cases ev)
  case (PitchWheel t ch p)
  then show ?thesis using assms
    by (auto simp: distinct_keys_def split: sum.splits dest!: pitch_wheel_scan_keys)
qed (use assms in \<open>auto split: if_splits dest: note_off_distinct\<close>)

lemma handle_events_distinct:
  "distinct_keys insts \<Longrightarrow> handle_events tt evs (st, insts) = Inr (st', insts')
     \<Longrightarrow> distinct_keys insts'"
proof (induction evs arbitrary: st insts)
  case Nil then show ?case by simp
next
  case (Cons ev evs)
  then show ?case
    by (auto split: sum.splits dest: handle_event_distinct)
qed

lemma handle_tracks_distinct:
  "distinct_keys insts \<Longrightarrow> handle_tracks tt tracks insts = Inr insts' \<Longrightarrow> distinct_keys insts'"
proof (induction tracks arbitrary: insts)
  case Nil then show ?case by simp
next
  case (Cons tr tracks)
  then show ?case
    by (auto split: sum.splits dest: handle_events_distinct)
qed

lemma total_notes_events: "map events a = map events b \<Longrightarrow> total_notes a = total_notes b"
proof -
  assume "map events a = map events b"
  then have "map (length \<circ> events) a = map (length \<circ> events) b"
    by (metis map_map)
  then show ?thesis by (simp add: total_notes_def comp_def)
qed

lemma handle_event_total:
  assumes "distinct_keys insts" "handle_event tt ev (st, insts) = Inr (st', insts')"
  shows "total_notes insts' = total_notes insts + (if matched_note_off st ev then 1 else 0)"
proof (cases ev)
  case (PitchWheel t ch p)
  then show ?thesis using assms
    by (auto split: sum.splits dest!: pitch_wheel_scan_keys intro: total_notes_events)
next
  case (NoteOn t ch p v)
  then show ?thesis using assms note_off_total[OF assms(1), of tt t ch p v st st' insts']
    by (auto split: if_splits simp: note_off_def)
next
  case (NoteOff t ch p v)
  then show ?thesis using assms note_off_total[OF assms(1), of tt t ch p v st st' insts']
    by (auto split: if_splits simp: note_off_def)
qed (use assms in \<open>auto split: if_splits\<close>)

text \<open>
  C10. No two instruments of the list share a (program, is\_drum) pair: every iteration of
  the event loop preserves this, and so the list returned by the reconstruction has it.
  Hence the scan of a note-off meets at most one matching instrument, and an iteration
  adds exactly one Note in total when its event is a matched note-off (and none
  otherwise).
\<close>

theorem instruments_distinct_keys:
  assumes "distinct_keys insts" and "handle_event tt ev (st, insts) = Inr (st', insts')"
  shows "distinct_keys insts' \<and>
         length (filter (matches prog d) insts) \<le> 1 \<and>
         total_notes insts' = total_notes insts + (if matched_note_off st ev then 1 else 0) \<and>
         (get_instruments tt midi_data = Inr r \<longrightarrow> distinct_keys r)"
  using assms handle_event_distinct handle_event_total filter_matches_le1
    handle_tracks_distinct[of "[]" tt midi_data r]
  by (auto simp: get_instruments_def distinct_keys_def)

theorem instruments_distinct_keys_witness:
  "distinct_keys [] \<and>
   handle_event [0, 1] (NoteOff 1 0 60 64)
     (new_track_state\<lparr>last_note_on := [(0, False, 60) \<mapsto> (0, 100)]\<rparr>, []) =
     Inr (new_track_state\<lparr>last_note_on := [(0, False, 60) \<mapsto> (0, 100)]\<rparr>
            \<lparr>last_note_on := ([(0, False, 60) \<mapsto> (0, 100)])((0, False, 60) := None)\<rparr>,
          [(Instrument 0 False)\<lparr>events := [Note 64 60 0 1]\<rparr>]) \<and>
   distinct_keys [(Instrument 0 False)\<lparr>events := [Note 64 60 0 1]\<rparr>] \<and>
   total_notes [(Instrument 0 False)\<lparr>events := [Note 64 60 0 1]\<rparr>] = total_notes [] + 1"
proof -
  have h1: "distinct_keys []" by (simp add: distinct_keys_def)
  have h2: "handle_event [0, 1] (NoteOff 1 0 60 64)
     (new_track_state\<lparr>last_note_on := [(0, False, 60) \<mapsto> (0, 100)]\<rparr>, []) =
     Inr (new_track_state\<lparr>last_note_on := [(0, False, 60) \<mapsto> (0, 100)]\<rparr>
            \<lparr>last_note_on := ([(0, False, 60) \<mapsto> (0, 100)])((0, False, 60) := None)\<rparr>,
          [(Instrument 0 False)\<lparr>events := [Note 64 60 0 1]\<rparr>])"
    by (simp add: note_off_def new_track_state_def add_note_def Let_def)
  have h3: "matched_note_off (new_track_state\<lparr>last_note_on := [(0, False, 60) \<mapsto> (0, 100)]\<rparr>)
     (NoteOff 1 0 60 64)"
    by (simp add: new_track_state_def)
  show ?thesis
    using instruments_distinct_keys[OF h1 h2] h1 h2 h3 by simp
qed

subsection \<open>Evaluation of the constructor on concrete inputs\<close>

lemmas ev_simps = init_def get_tempo_changes_def tick_scale_of_def compute_max_tick_def
  update_tick_to_time_def assign_slice_def ramp_def get_instruments_def new_track_state_def
  note_off_def add_note_def matches_def Note_def Instrument_def Let_def

subsection \<open>The velocity of a reconstructed Note\<close>

text \<open>
  C1. The claim is that the Note of a matched note-off always carries the velocity recorded
  at the note-on. On the file with a Note On of velocity 100 at tick 0 and its Note Off of
  velocity 64 at tick 4 (resolution 2), the instrument is created by the note-off, and its
  Note has velocity 64, the velocity of the Note Off event, not the recorded 100.
\<close>

theorem new_instrument_note_velocity:
  "init [[NoteOn 0 0 60 100, NoteOff 4 0 60 64]] 2 =
     Inr \<lparr>resolution = 2, tick_scales = [(0, 1 / 4)],
          tick_to_time = [0, 1 / 4, 1 / 2, 3 / 4, 1],
          instruments =
            [\<lparr>program = 0, is_drum = False,
              events = [\<lparr>velocity = 64, pitch = 60, start = 0, endt = 1\<rparr>],
              pitch_changes = []\<rparr>]\<rparr>"
  by (simp add: ev_simps upt_rec numeral_eq_Suc)

subsection \<open>A program change between note-on and note-off\<close>

text \<open>
  The claim C2 as stated fails: after a Note On, a Program Change to program 5 on the same
  channel and the Note Off of the same pitch, no Note is emitted at all.
\<close>

theorem program_change_counterexample:
  "init [[NoteOn 0 0 60 100, ProgramChange 1 0 5, NoteOff 2 0 60 64]] 2 =
     Inr \<lparr>resolution = 2, tick_scales = [(0, 1 / 4)],
          tick_to_time = [0, 1 / 4, 1 / 2], instruments = []\<rparr>"
  by (simp add: ev_simps upt_rec numeral_eq_Suc)

lemma add_note_member:
  "i \<in> set insts \<Longrightarrow> matches prog d i \<Longrightarrow> i\<lparr>events := events i @ [n]\<rparr> \<in> set (add_note prog d n insts)"
  by (induction insts) (auto simp: add_note_def)

lemma note_off_emits:
  assumes "ch < length (current_instrument st)" "t < length tt"
    and "last_note_on st (current_instrument st ! ch, ch = 9, p) = Some (s, w)"
  shows "\<exists>st' insts' i. note_off tt t ch p v (st, insts) = Inr (st', insts') \<and>
           i \<in> set insts' \<and> program i = current_instrument st ! ch \<and> is_drum i = (ch = 9) \<and>
           events i \<noteq> [] \<and> pitch (last (events i)) = p \<and> start (last (events i)) = s \<and>
           endt (last (events i)) = tt ! t"
proof (cases "list_ex (matches (current_instrument st ! ch) (ch = 9)) insts")
  case True
  then obtain i where i: "i \<in> set insts" "matches (current_instrument st ! ch) (ch = 9) i"
    by (auto simp: list_ex_iff)
  let ?n = "Note w p s (tt ! t)"
  let ?i = "i\<lparr>events := events i @ [?n]\<rparr>"
  have "?i \<in> set (add_note (current_instrument st ! ch) (ch = 9) ?n insts)"
    using add_note_member[OF i] .
  moreover have "program ?i = current_instrument st ! ch" "is_drum ?i = (ch = 9)"
    using i(2) by (auto simp: matches_def)
  ultimately show ?thesis using assms True
    by (auto simp: note_off_def Let_def Note_def intro!: exI[of _ ?i])
next
  case False
  then show ?thesis using assms
    by (auto simp: note_off_def Let_def Note_def Instrument_def)
qed

text \<open>
  C2, as amended. A note-off is looked up under the program that is current on its channel
  when the note-off arrives. After a Note On (velocity above 0), a Program Change on the
  same channel to a program \<open>q\<close> and a Note Off of the same pitch: when \<open>q\<close> differs from
  the program at note-on time and no onset of that pitch is pending under \<open>q\<close>, no Note is
  emitted, the instrument list is unchanged and the onset stays pending under the original
  program; when \<open>q\<close> is the program at note-on time, a Note with the recorded onset time is
  appended to the instrument keyed by that program.
\<close>

theorem note_off_uses_current_program:
  assumes "ch < length (current_instrument st)" and "t0 < length tt" and "0 < v"
  shows "(q \<noteq> current_instrument st ! ch \<and> last_note_on st (q, ch = 9, p) = None \<longrightarrow>
            (\<exists>st'. handle_events tt [NoteOn t0 ch p v, ProgramChange t1 ch q, NoteOff t2 ch p v']
                      (st, insts) = Inr (st', insts) \<and>
                   last_note_on st' (current_instrument st ! ch, ch = 9, p) = Some (tt ! t0, v))) \<and>
         (q = current_instrument st ! ch \<and> t2 < length tt \<longrightarrow>
            (\<exists>st' insts' i. handle_events tt [NoteOn t0 ch p v, ProgramChange t1 ch q, NoteOff t2 ch p v']
                      (st, insts) = Inr (st', insts') \<and>
                   i \<in> set insts' \<and> program i = q \<and> is_drum i = (ch = 9) \<and> events i \<noteq> [] \<and>
                   pitch (last (events i)) = p \<and> start (last (events i)) = tt ! t0 \<and>
                   endt (last (events i)) = tt ! t2))"
proof (intro conjI impI)
  assume a: "q \<noteq> current_instrument st ! ch \<and> last_note_on st (q, ch = 9, p) = None"
  show "\<exists>st'. handle_events tt [NoteOn t0 ch p v, ProgramChange t1 ch q, NoteOff t2 ch p v']
                      (st, insts) = Inr (st', insts) \<and>
                   last_note_on st' (current_instrument st ! ch, ch = 9, p) = Some (tt ! t0, v)"
    using assms a by (simp add: note_off_def)
next
  assume b: "q = current_instrument st ! ch \<and> t2 < length tt"
  let ?st = "st\<lparr>last_note_on := (last_note_on st)((current_instrument st ! ch, ch = 9, p) \<mapsto> (tt ! t0, v)),
                 current_instrument := (current_instrument st)[ch := q]\<rparr>"
  have "\<exists>st' insts' i. note_off tt t2 ch p v' (?st, insts) = Inr (st', insts') \<and>
           i \<in> set insts' \<and> program i = current_instrument ?st ! ch \<and> is_drum i = (ch = 9) \<and>
           events i \<noteq> [] \<and> pitch (last (events i)) = p \<and> start (last (events i)) = tt ! t0 \<and>
           endt (last (events i)) = tt ! t2"
    by (rule note_off_emits) (use assms b in auto)
  then show "\<exists>st' insts' i. handle_events tt [NoteOn t0 ch p v, ProgramChange t1 ch q, NoteOff t2 ch p v']
                      (st, insts) = Inr (st', insts') \<and>
                   i \<in> set insts' \<and> program i = q \<and> is_drum i = (ch = 9) \<and> events i \<noteq> [] \<and>
                   pitch (last (events i)) = p \<and> start (last (events i)) = tt ! t0 \<and>
                   endt (last (events i)) = tt ! t2"
    using assms b by auto
qed

theorem note_off_uses_current_program_witness:
  "0 < length (current_instrument new_track_state) \<and> (0::nat) < length [0, 1 / 4, 1 / 2 :: real] \<and>
   (0::int) < 100 \<and>
   (\<exists>st'. handle_events [0, 1 / 4, 1 / 2]
             [NoteOn 0 0 60 100, ProgramChange 1 0 5, NoteOff 2 0 60 64] (new_track_state, []) =
             Inr (st', []) \<and>
          last_note_on st' (0, False, 60) = Some (0, 100)) \<and>
   (\<exists>st' insts' i. handle_events [0, 1 / 4, 1 / 2]
             [NoteOn 0 0 60 100, ProgramChange 1 0 0, NoteOff 2 0 60 64] (new_track_state, []) =
             Inr (st', insts') \<and>
          i \<in> set insts' \<and> program i = 0 \<and> is_drum i = False \<and> events i \<noteq> [] \<and>
          pitch (last (events i)) = 60 \<and> start (last (events i)) = 0 \<and>
          endt (last (events i)) = 1 / 2)"
proof -
  have h1: "0 < length (current_instrument new_track_state)"
    by (simp add: new_track_state_def)
  have h2: "(0::nat) < length [0, 1 / 4, 1 / 2 :: real]" by simp
  have h3: "(0::int) < 100" by simp
  show ?thesis
    using note_off_uses_current_program[OF h1 h2 h3, where q = 5 and p = 60 and ?t1.0 = 1
        and ?t2.0 = 2 and v' = 64 and insts = "[]"]
      note_off_uses_current_program[OF h1 h2 h3, where q = 0 and p = 60 and ?t1.0 = 1
        and ?t2.0 = 2 and v' = 64 and insts = "[]"] h1 h2 h3
    by (simp add: new_track_state_def)
qed

section \<open>Properties of the tempo map\<close>

subsection \<open>The breakpoints of \_get\_tempo\_changes\<close>

lemma tempo_loop_total:
  "res \<noteq> 0 \<Longrightarrow> 0 \<notin> set (tempo_bpms evs) \<Longrightarrow> ts \<noteq> [] \<Longrightarrow> \<exists>r. tempo_loop res evs ts = Inr r"
  by (induction res evs ts rule: tempo_loop.induct) (auto simp: tick_scale_of_def)

lemma tempo_loop_inv:
  "tempo_loop res evs ts = Inr r \<Longrightarrow> ts \<noteq> [] \<Longrightarrow> fst (hd ts) = 0 \<Longrightarrow> distinct_adj (map snd ts)
     \<Longrightarrow> r \<noteq> [] \<and> fst (hd r) = 0 \<and> distinct_adj (map snd r)"
proof (induction res evs ts rule: tempo_loop.induct)
  case (2 res t b evs ts)
  then show ?case
    by (auto simp: distinct_adj_append_iff last_map split: if_splits sum.splits)
qed auto

lemma tempo_loop_sorted:
  "tempo_loop res evs ts = Inr r \<Longrightarrow> sorted (map tick evs) \<Longrightarrow> sorted (map fst ts)
     \<Longrightarrow> \<forall>x \<in> set ts. \<forall>e \<in> set evs. fst x \<le> tick e \<Longrightarrow> sorted (map fst r)"
proof (induction res evs ts rule: tempo_loop.induct)
  case (2 res t b evs ts)
  then show ?case
    by (auto simp: sorted_append split: if_splits sum.splits)
qed auto

lemma tempo_ticks_pos: "t \<in> set (tempo_ticks evs) \<Longrightarrow> 0 < t"
  by (induction evs rule: tempo_ticks.induct) (auto split: if_splits)

lemma tempo_loop_strict:
  "tempo_loop res evs ts = Inr r \<Longrightarrow> sorted_wrt (<) (tempo_ticks evs) \<Longrightarrow> sorted_wrt (<) (map fst ts)
     \<Longrightarrow> \<forall>x \<in> set ts. \<forall>t \<in> set (tempo_ticks evs). fst x < t \<Longrightarrow> sorted_wrt (<) (map fst r)"
proof (induction res evs ts rule: tempo_loop.induct)
  case (2 res t b evs ts)
  then show ?case
    by (auto simp: sorted_wrt_append tempo_ticks_pos split: if_splits sum.splits)
qed auto

text \<open>
  The claim C5 as stated fails on the strict increase of the ticks: two Set Tempo events at
  the same tick 4 with different BPM are both appended.
\<close>

theorem tempo_breakpoints_counterexample:
  "get_tempo_changes [[SetTempo 4 90, SetTempo 4 80]] 2 = Inr [(0, 1 / 4), (4, 1 / 3), (4, 3 / 8)] \<and>
   \<not> sorted_wrt (<) (map fst [(0, 1 / 4 :: real), (4 :: nat, 1 / 3), (4, 3 / 8)])"
  by (simp add: get_tempo_changes_def tick_scale_of_def)

text \<open>
  C5, as amended. For every track 0 (with a resolution and BPM values other than 0, so that
  no division fails) the breakpoint list is returned, is not empty, starts at tick 0, and
  no two consecutive breakpoints have the same seconds-per-tick value. Its ticks are
  non-decreasing when the track is ordered by tick, and strictly increasing when the ticks
  of the Set Tempo events after tick 0 are strictly increasing.
\<close>

theorem tempo_breakpoints:
  assumes "res \<noteq> 0" and "0 \<notin> set (tempo_bpms track0)"
  shows "\<exists>ts. get_tempo_changes (track0 # tracks) res = Inr ts \<and>
           ts \<noteq> [] \<and> fst (hd ts) = 0 \<and> distinct_adj (map snd ts) \<and>
           (sorted (map tick track0) \<longrightarrow> sorted (map fst ts)) \<and>
           (sorted_wrt (<) (tempo_ticks track0) \<longrightarrow> sorted_wrt (<) (map fst ts))"
proof -
  let ?s = "60 / (120 * real_of_int res)"
  have sc: "tick_scale_of 120 res = Inr ?s"
    using assms(1) by (simp add: tick_scale_of_def)
  obtain ts where ts: "tempo_loop res track0 [(0, ?s)] = Inr ts"
    using tempo_loop_total[OF assms, of "[(0, ?s)]"] by auto
  have g: "get_tempo_changes (track0 # tracks) res = Inr ts"
    using sc ts by (simp add: get_tempo_changes_def)
  have "ts \<noteq> [] \<and> fst (hd ts) = 0 \<and> distinct_adj (map snd ts)"
    using tempo_loop_inv[OF ts] by simp
  moreover have "sorted (map tick track0) \<longrightarrow> sorted (map fst ts)"
    using tempo_loop_sorted[OF ts] by simp
  moreover have "sorted_wrt (<) (tempo_ticks track0) \<longrightarrow> sorted_wrt (<) (map fst ts)"
    using tempo_loop_strict[OF ts] tempo_ticks_pos by simp
  ultimately show ?thesis using g by blast
qed

theorem tempo_breakpoints_witness:
  "(2::int) \<noteq> 0 \<and> 0 \<notin> set (tempo_bpms [SetTempo 0 100, SetTempo 4 90, SetTempo 5 90, SetTempo 6 80]) \<and>
   sorted (map tick [SetTempo 0 100, SetTempo 4 90, SetTempo 5 90, SetTempo 6 80]) \<and>
   sorted_wrt (<) (tempo_ticks [SetTempo 0 100, SetTempo 4 90, SetTempo 5 90, SetTempo 6 80]) \<and>
   (\<exists>ts. get_tempo_changes [[SetTempo 0 100, SetTempo 4 90, SetTempo 5 90, SetTempo 6 80]] 2 = Inr ts \<and>
      ts = [(0, 3 / 10), (4, 1 / 3), (6, 3 / 8)] \<and>
      fst (hd ts) = 0 \<and> distinct_adj (map snd ts) \<and> sorted (map fst ts) \<and>
      sorted_wrt (<) (map fst ts))"
proof -
  have h1: "(2::int) \<noteq> 0" by simp
  have h2: "0 \<notin> set (tempo_bpms [SetTempo 0 100, SetTempo 4 90, SetTempo 5 90, SetTempo 6 80])"
    by simp
  have h3: "get_tempo_changes [[SetTempo 0 100, SetTempo 4 90, SetTempo 5 90, SetTempo 6 80]] 2 =
      Inr [(0, 3 / 10), (4, 1 / 3), (6, 3 / 8)]"
    by (simp add: get_tempo_changes_def tick_scale_of_def)
  show ?thesis
    using tempo_breakpoints[OF h1 h2, of "[]"] h1 h2 h3 by simp
qed

subsection \<open>The tempo of a single-tempo file\<close>

lemma compute_max_tick_pos: "compute_max_tick md = Inr m \<Longrightarrow> 0 < m"
  by (auto simp: compute_max_tick_def split: sum.splits)

lemma update_single:
  "0 < m \<Longrightarrow> update_tick_to_time [(0, sc)] m = Inr tt \<Longrightarrow> length tt = m \<and> tt ! 0 = 0"
  by (auto simp: update_tick_to_time_def assign_slice_def ramp_def Let_def nth_append
      split: if_splits)

lemma tempo_loop_append:
  "tempo_loop res (xs @ ys) ts =
     (case tempo_loop res xs ts of Inl e \<Rightarrow> Inl e | Inr ts' \<Rightarrow> tempo_loop res ys ts')"
  by (induction res xs ts rule: tempo_loop.induct) (auto split: sum.splits)

lemma tempo_loop_same_bpm:
  "set (tempo_bpms evs) \<subseteq> {b} \<Longrightarrow> tick_scale_of b res = Inr sc \<Longrightarrow>
     tempo_loop res evs [(0, sc)] = Inr [(0, sc)]"
proof (induction evs)
  case Nil
  then show ?case by simp
next
  case (Cons ev evs)
  have sub: "set (tempo_bpms evs) \<subseteq> {b}"
    using Cons.prems(1) by (cases ev) auto
  have ih: "tempo_loop res evs [(0, sc)] = Inr [(0, sc)]"
    using Cons.IH[OF sub Cons.prems(2)] .
  show ?case
  proof (cases ev)
    case (SetTempo t b')
    then have "b' = b" using Cons.prems(1) by simp
    then show ?thesis using SetTempo ih Cons.prems(2) by simp
  qed (use ih in auto)
qed

lemma single_tempo_breakpoints:
  assumes "set (tempo_bpms post) \<subseteq> {b}"
    and "get_tempo_changes ((pre @ SetTempo 0 b # post) # tracks) res = Inr ts"
  shows "res \<noteq> 0 \<and> b \<noteq> 0 \<and> ts = [(0, 60 / (b * real_of_int res))]"
proof -
  from assms(2) obtain s0 where
    s0: "tick_scale_of 120 res = Inr s0" and
    lp: "tempo_loop res (pre @ SetTempo 0 b # post) [(0, s0)] = Inr ts"
    by (auto simp: get_tempo_changes_def split: sum.splits)
  from lp obtain ts' where
    rest: "tempo_loop res (SetTempo 0 b # post) ts' = Inr ts"
    unfolding tempo_loop_append by (auto split: sum.splits)
  then obtain sc where
    sc: "tick_scale_of b res = Inr sc" and p: "tempo_loop res post [(0, sc)] = Inr ts"
    by (auto split: sum.splits)
  have "ts = [(0, sc)]" using tempo_loop_same_bpm[OF assms(1) sc] p by simp
  moreover have "sc = 60 / (b * real_of_int res) \<and> b \<noteq> 0 \<and> res \<noteq> 0"
    using sc by (auto simp: tick_scale_of_def split: if_splits)
  ultimately show ?thesis by simp
qed

text \<open>
  C9. A single-tempo file: track 0 has a Set Tempo event at tick 0 with a BPM \<open>b > 0\<close>,
  and every Set Tempo event after it in the track has the same BPM \<open>b\<close> (whatever
  precedes it). Whenever the constructor returns a container for such a file, its only
  tempo breakpoint is at tick 0 with \<open>60 / (b * resolution)\<close> seconds per tick, and
  get\_tempii returns the time 0 and the tempo \<open>b\<close> of the file's Set Tempo event for it
  (in exact arithmetic).
\<close>

theorem single_tempo_round_trip:
  assumes "0 < b" and "set (tempo_bpms post) \<subseteq> {b}"
    and "init ((pre @ SetTempo 0 b # post) # tracks) res = Inr self"
  shows "tick_scales self = [(0, 60 / (b * real_of_int res))] \<and>
         get_tempii self = Inr ([0], [b])"
proof -
  let ?md = "(pre @ SetTempo 0 b # post) # tracks"
  from assms(3) obtain ts m tt where
    g: "get_tempo_changes ?md res = Inr ts" and
    m: "compute_max_tick ?md = Inr m" and
    tt: "update_tick_to_time ts m = Inr tt" and
    self: "tick_scales self = ts" "tick_to_time self = tt" "resolution self = res"
    by (auto simp: init_def split: sum.splits)
  have f: "res \<noteq> 0" "b \<noteq> 0" "ts = [(0, 60 / (b * real_of_int res))]"
    using single_tempo_breakpoints[OF assms(2) g] by auto
  have "length tt = m \<and> tt ! 0 = 0"
    using update_single[OF compute_max_tick_pos[OF m]] tt f(3) by simp
  moreover have "0 < m" using compute_max_tick_pos[OF m] .
  ultimately show ?thesis
    using self f by (simp add: get_tempii_def)
qed

theorem single_tempo_round_trip_witness:
  "(0::real) < 90 \<and>
   set (tempo_bpms [NoteOn 0 0 60 100, SetTempo 1 90, NoteOff 2 0 60 64]) \<subseteq> {90} \<and>
   init (([SetTempo 0 100] @ SetTempo 0 90 # [NoteOn 0 0 60 100, SetTempo 1 90, NoteOff 2 0 60 64]) # []) 2 =
     Inr \<lparr>resolution = 2, tick_scales = [(0, 1 / 3)], tick_to_time = [0, 1 / 3, 2 / 3],
          instruments = [\<lparr>program = 0, is_drum = False,
              events = [\<lparr>velocity = 64, pitch = 60, start = 0, endt = 2 / 3\<rparr>],
              pitch_changes = []\<rparr>]\<rparr> \<and>
   get_tempii \<lparr>resolution = 2, tick_scales = [(0, 1 / 3)], tick_to_time = [0, 1 / 3, 2 / 3],
          instruments = [\<lparr>program = 0, is_drum = False,
              events = [\<lparr>velocity = 64, pitch = 60, start = 0, endt = 2 / 3\<rparr>],
              pitch_changes = []\<rparr>]\<rparr> = Inr ([0], [90])"
proof -
  have h1: "(0::real) < 90" by simp
  have h2: "set (tempo_bpms [NoteOn 0 0 60 100, SetTempo 1 90, NoteOff 2 0 60 64]) \<subseteq> {90}"
    by simp
  have h3: "init (([SetTempo 0 100] @ SetTempo 0 90 # [NoteOn 0 0 60 100, SetTempo 1 90, NoteOff 2 0 60 64]) # []) 2 =
     Inr \<lparr>resolution = 2, tick_scales = [(0, 1 / 3)], tick_to_time = [0, 1 / 3, 2 / 3],
          instruments = [\<lparr>program = 0, is_drum = False,
              events = [\<lparr>velocity = 64, pitch = 60, start = 0, endt = 2 / 3\<rparr>],
              pitch_changes = []\<rparr>]\<rparr>"
    by (simp add: ev_simps upt_rec numeral_eq_Suc)
  show ?thesis
    using single_tempo_round_trip[OF h1 h2 h3] h1 h2 h3 by simp
qed

subsection \<open>The lookup array of \_update\_tick\_to\_time\<close>

lemma zip_consecutive: "zip (butlast ts) (tl ts) = consecutive ts"
  by (induction ts rule: consecutive.induct) auto

lemma assign_slice_length: "assign_slice a s e v = Inr a' \<Longrightarrow> length a' = length a"
  by (auto simp: assign_slice_def Let_def split: if_splits)

lemma ramp_length [simp]: "length (ramp v sc n) = n"
  by (simp add: ramp_def)

lemma ramp_nth [simp]: "i < n \<Longrightarrow> ramp v sc n ! i = v + sc * real i"
  by (simp add: ramp_def)

lemma assign_slice_in_range:
  "s \<le> e \<Longrightarrow> e \<le> length a \<Longrightarrow> length w = e - s \<Longrightarrow>
     assign_slice a s e w = Inr (take s a @ w @ drop e a)"
  by (simp add: assign_slice_def Let_def min_def)

lemma segment_nth_before:
  "s \<le> e \<Longrightarrow> e \<le> length a \<Longrightarrow> i < s \<Longrightarrow> (take s a @ w @ drop e a) ! i = a ! i"
  by (simp add: nth_append)

lemma segment_nth_in:
  "s \<le> e \<Longrightarrow> e \<le> length a \<Longrightarrow> length w = e - s \<Longrightarrow> s \<le> i \<Longrightarrow> i < e \<Longrightarrow>
     (take s a @ w @ drop e a) ! i = w ! (i - s)"
  by (auto simp: nth_append)

lemma tick_loop_step:
  assumes "s \<le> t" and "tick_loop (((s, sc), (t, x)) # ps) (a, v) = Inr r"
  obtains a1 where "length a1 = length a" and "t < length a"
    and "tick_loop ps (a1, a1 ! t) = Inr r"
    and "\<And>i. i < s \<Longrightarrow> a1 ! i = a ! i"
    and "\<And>i. s \<le> i \<Longrightarrow> i \<le> t \<Longrightarrow> a1 ! i = v + sc * real (i - s)"
proof -
  from assms(2) obtain a1 where
    a1: "assign_slice a s (t + 1) (ramp v sc (t + 1 - s)) = Inr a1" and
    tl: "t < length a1" and
    rec: "tick_loop ps (a1, a1 ! t) = Inr r"
    by (auto split: sum.splits if_splits)
  have len1: "length a1 = length a" using assign_slice_length[OF a1] .
  have "assign_slice a s (t + 1) (ramp v sc (t + 1 - s)) =
          Inr (take s a @ ramp v sc (t + 1 - s) @ drop (t + 1) a)"
    by (rule assign_slice_in_range) (use assms(1) tl len1 in auto)
  with a1 have a1_eq: "a1 = take s a @ ramp v sc (t + 1 - s) @ drop (t + 1) a" by simp
  have f1: "a1 ! i = a ! i" if "i < s" for i
    unfolding a1_eq by (rule segment_nth_before) (use assms(1) tl len1 that in auto)
  have f2: "a1 ! i = v + sc * real (i - s)" if "s \<le> i" "i \<le> t" for i
  proof -
    have "a1 ! i = ramp v sc (t + 1 - s) ! (i - s)"
      unfolding a1_eq by (rule segment_nth_in) (use assms(1) tl len1 that in auto)
    also have "\<dots> = v + sc * real (i - s)"
      by (rule ramp_nth) (use that in auto)
    finally show ?thesis .
  qed
  show thesis using that[OF len1 _ rec f1 f2] tl len1 by simp
qed


lemma tick_loop_pres:
  "sorted (map fst (b # bs)) \<Longrightarrow> tick_loop (consecutive (b # bs)) (a, v) = Inr (a', v') \<Longrightarrow>
   (fst b < length a \<Longrightarrow> a ! fst b = v) \<Longrightarrow> i \<le> fst b \<Longrightarrow> i < length a \<Longrightarrow> a' ! i = a ! i"
proof (induction bs arbitrary: b a v)
  case Nil
  then show ?case by simp
next
  case (Cons e rest)
  obtain s sc t x where be: "b = (s, sc)" "e = (t, x)" by (cases b, cases e) auto
  have st: "s \<le> t" and so: "sorted (map fst (e # rest))"
    using Cons.prems(1) be by auto
  from Cons.prems(2) have lp: "tick_loop (((s, sc), (t, x)) # consecutive (e # rest)) (a, v) = Inr (a', v')"
    by (simp add: be)
  show ?case
  proof (rule tick_loop_step[OF st lp])
  fix a1
  assume a1: "length a1 = length a" "t < length a"
      "tick_loop (consecutive (e # rest)) (a1, a1 ! t) = Inr (a', v')"
      "\<And>i. i < s \<Longrightarrow> a1 ! i = a ! i"
      "\<And>i. s \<le> i \<Longrightarrow> i \<le> t \<Longrightarrow> a1 ! i = v + sc * real (i - s)"
  have i_le: "i \<le> s" using Cons.prems(4) be by simp
  have "a' ! i = a1 ! i"
    by (rule Cons.IH[OF so a1(3)]) (use i_le st be a1(1) Cons.prems(5) in auto)
  also have "a1 ! i = a ! i"
  proof (cases "i < s")
    case True then show ?thesis by (rule a1(4))
  next
    case False
    then have eq: "i = s" using i_le by simp
    have "a ! s = v" using Cons.prems(3) Cons.prems(5) eq be by simp
    then show ?thesis using a1(5)[of s] st eq by simp
  qed
  finally show ?thesis .
  qed
qed

lemma tick_loop_last:
  "sorted (map fst (b # bs)) \<Longrightarrow> tick_loop (consecutive (b # bs)) (a, v) = Inr (a', v') \<Longrightarrow>
   bs \<noteq> [] \<Longrightarrow> fst (last (b # bs)) < length a \<and> a' ! fst (last (b # bs)) = v'"
proof (induction bs arbitrary: b a v)
  case Nil
  then show ?case by simp
next
  case (Cons e rest)
  obtain s sc t x where be: "b = (s, sc)" "e = (t, x)" by (cases b, cases e) auto
  have st: "s \<le> t" and so: "sorted (map fst (e # rest))"
    using Cons.prems(1) be by auto
  from Cons.prems(2) have lp: "tick_loop (((s, sc), (t, x)) # consecutive (e # rest)) (a, v) = Inr (a', v')"
    by (simp add: be)
  show ?case
  proof (rule tick_loop_step[OF st lp])
    fix a1
    assume a1: "length a1 = length a" "t < length a"
      "tick_loop (consecutive (e # rest)) (a1, a1 ! t) = Inr (a', v')"
    show ?thesis
    proof (cases "rest = []")
      case True
      then show ?thesis using a1 be by auto
    next
      case False
      then show ?thesis using Cons.IH[OF so a1(3) False] a1(1) by simp
    qed
  qed
qed

lemma tick_loop_segment:
  "sorted (map fst (b # bs)) \<Longrightarrow> tick_loop (consecutive (b # bs)) (a, v) = Inr (a', v') \<Longrightarrow>
   (fst b < length a \<Longrightarrow> a ! fst b = v) \<Longrightarrow>
   ((s0, c0), (s1, c1)) \<in> set (consecutive (b # bs)) \<Longrightarrow> s0 \<le> i \<Longrightarrow> i \<le> s1 \<Longrightarrow>
   a' ! i = a' ! s0 + c0 * real (i - s0)"
proof (induction bs arbitrary: b a v)
  case Nil
  then show ?case by simp
next
  case (Cons e rest)
  obtain s sc t x where be: "b = (s, sc)" "e = (t, x)" by (cases b, cases e) auto
  have st: "s \<le> t" and so: "sorted (map fst (e # rest))"
    using Cons.prems(1) be by auto
  from Cons.prems(2) have lp: "tick_loop (((s, sc), (t, x)) # consecutive (e # rest)) (a, v) = Inr (a', v')"
    by (simp add: be)
  show ?case
  proof (rule tick_loop_step[OF st lp])
  fix a1
  assume a1: "length a1 = length a" "t < length a"
      "tick_loop (consecutive (e # rest)) (a1, a1 ! t) = Inr (a', v')"
      "\<And>i. i < s \<Longrightarrow> a1 ! i = a ! i"
      "\<And>i. s \<le> i \<Longrightarrow> i \<le> t \<Longrightarrow> a1 ! i = v + sc * real (i - s)"
  have keep: "a' ! k = a1 ! k" if "k \<le> t" for k
    by (rule tick_loop_pres[OF so a1(3)]) (use that be a1(1,2) in auto)
  consider (head) "((s0, c0), (s1, c1)) = ((s, sc), (t, x))"
    | (tail) "((s0, c0), (s1, c1)) \<in> set (consecutive (e # rest))"
    using Cons.prems(4) be by auto
  then show ?thesis
  proof cases
    case head
    then have eqs: "s0 = s" "c0 = sc" "s1 = t" by auto
    have "a' ! i = v + sc * real (i - s)"
      using keep[of i] a1(5)[of i] Cons.prems(5,6) eqs by simp
    moreover have "a' ! s = v"
      using keep[of s] a1(5)[of s] st by simp
    ultimately show ?thesis using eqs by simp
  next
    case tail
    show ?thesis
      by (rule Cons.IH[OF so a1(3) _ tail Cons.prems(5,6)]) (simp add: be)
  qed
  qed
qed

lemma sorted_last_ge: "sorted (map fst (b # bs)) \<Longrightarrow> fst b \<le> fst (last (b # bs))"
  by (induction bs arbitrary: b) (auto split: if_splits)

lemma tick_loop_mono:
  "sorted (map fst (b # bs)) \<Longrightarrow> tick_loop (consecutive (b # bs)) (a, v) = Inr (a', v') \<Longrightarrow>
   (fst b < length a \<Longrightarrow> a ! fst b = v) \<Longrightarrow> (\<And>y. y \<in> set (b # bs) \<Longrightarrow> 0 \<le> snd y) \<Longrightarrow>
   fst b \<le> i \<Longrightarrow> i \<le> j \<Longrightarrow> j \<le> fst (last (b # bs)) \<Longrightarrow> bs \<noteq> [] \<Longrightarrow> a' ! i \<le> a' ! j"
proof (induction bs arbitrary: b a v i j)
  case Nil
  then show ?case by simp
next
  case (Cons e rest)
  obtain s sc t x where be: "b = (s, sc)" "e = (t, x)" by (cases b, cases e) auto
  have st: "s \<le> t" and so: "sorted (map fst (e # rest))"
    using Cons.prems(1) be by auto
  from Cons.prems(2) have lp: "tick_loop (((s, sc), (t, x)) # consecutive (e # rest)) (a, v) = Inr (a', v')"
    by (simp add: be)
  show ?case
  proof (rule tick_loop_step[OF st lp])
  fix a1
  assume a1: "length a1 = length a" "t < length a"
      "tick_loop (consecutive (e # rest)) (a1, a1 ! t) = Inr (a', v')"
      "\<And>i. i < s \<Longrightarrow> a1 ! i = a ! i"
      "\<And>i. s \<le> i \<Longrightarrow> i \<le> t \<Longrightarrow> a1 ! i = v + sc * real (i - s)"
  have keep: "a' ! k = a1 ! k" if "k \<le> t" for k
    by (rule tick_loop_pres[OF so a1(3)]) (use that be a1(1,2) in auto)
  have g: "a' ! k = v + sc * real (k - s)" if "s \<le> k" "k \<le> t" for k
    using keep[OF that(2)] a1(5)[OF that] by simp
  have sc0: "0 \<le> sc" using Cons.prems(4)[of b] be by simp
  have seg: "a' ! i' \<le> a' ! j'" if "s \<le> i'" "i' \<le> j'" "j' \<le> t" for i' j'
  proof -
    have "real (i' - s) \<le> real (j' - s)" using that by simp
    then have "sc * real (i' - s) \<le> sc * real (j' - s)"
      using sc0 by (rule mult_left_mono)
    then show ?thesis using g[of i'] g[of j'] that by simp
  qed
  have lst: "fst (last (b # e # rest)) = fst (last (e # rest))" by simp
  have later: "a' ! i' \<le> a' ! j'" if "t \<le> i'" "i' \<le> j'" "j' \<le> fst (last (e # rest))" for i' j'
  proof (cases "rest = []")
    case True
    then have "i' = t" "j' = t" using that be by auto
    then show ?thesis by simp
  next
    case False
    show ?thesis
      by (rule Cons.IH[OF so a1(3) _ _ _ that(2,3) False])
         (use that(1) be Cons.prems(4) in auto)
  qed
  have tle: "t \<le> fst (last (e # rest))"
    using sorted_last_ge[OF so] be by simp
  have s_le: "s \<le> i" using Cons.prems(5) be by simp
  have jl: "j \<le> fst (last (e # rest))" using Cons.prems(7) by simp
  show ?thesis
  proof (cases "j \<le> t")
    case True
    then show ?thesis using seg[OF s_le Cons.prems(6)] by simp
  next
    case False
    show ?thesis
    proof (cases "t \<le> i")
      case True
      then show ?thesis using later[OF True Cons.prems(6) jl] by simp
    next
      case F2: False
      have "a' ! i \<le> a' ! t" using seg[of i t] F2 s_le by simp
      also have "a' ! t \<le> a' ! j" using later[of t j] False jl by simp
      finally show ?thesis .
    qed
  qed
  qed
qed

lemma tick_loop_length_any:
  "tick_loop ps (a, v) = Inr (a', v') \<Longrightarrow> length a' = length a"
proof (induction ps arbitrary: a v)
  case Nil
  then show ?case by simp
next
  case (Cons p ps)
  obtain s sc t x where p: "p = ((s, sc), (t, x))" by (cases p) auto
  from Cons.prems obtain a1 where
    a1: "assign_slice a s (t + 1) (ramp v sc (t + 1 - s)) = Inr a1" and
    rec: "tick_loop ps (a1, a1 ! t) = Inr (a', v')"
    by (auto simp: p split: sum.splits if_splits)
  show ?case using Cons.IH[OF rec] assign_slice_length[OF a1] by simp
qed

lemma tick_loop_total:
  "sorted (map fst (b # bs)) \<Longrightarrow> (\<And>y. y \<in> set (b # bs) \<Longrightarrow> fst y < length a) \<Longrightarrow>
     \<exists>r. tick_loop (consecutive (b # bs)) (a, v) = Inr r"
proof (induction bs arbitrary: b a v)
  case Nil
  then show ?case by simp
next
  case (Cons e rest)
  obtain s sc t x where be: "b = (s, sc)" "e = (t, x)" by (cases b, cases e) auto
  have st: "s \<le> t" and so: "sorted (map fst (e # rest))"
    using Cons.prems(1) be by auto
  have tl: "t < length a" using Cons.prems(2)[of e] be by simp
  let ?a1 = "take s a @ ramp v sc (t + 1 - s) @ drop (t + 1) a"
  have as: "assign_slice a s (t + 1) (ramp v sc (t + 1 - s)) = Inr ?a1"
    by (rule assign_slice_in_range) (use st tl in auto)
  have len: "length ?a1 = length a" using assign_slice_length[OF as] .
  have "\<exists>r. tick_loop (consecutive (e # rest)) (?a1, ?a1 ! t) = Inr r"
    by (rule Cons.IH[OF so]) (use Cons.prems(2) len in auto)
  then show ?case using as tl len by (simp add: be)
qed

lemma final_assign:
  "assign_slice a sl (length a) (ramp v sc (length a - sl)) = Inr (take sl a @ ramp v sc (length a - sl))"
  by (simp add: assign_slice_def Let_def min_def)

lemma update_unfold:
  assumes l: "last (b # bs) = (sl, scl)"
  shows "update_tick_to_time (b # bs) m = Inr tt \<longleftrightarrow>
     (\<exists>a v. tick_loop (consecutive (b # bs)) (replicate m 0, 0) = Inr (a, v) \<and>
        tt = take sl a @ ramp v scl (m - sl))"
proof -
  have u: "update_tick_to_time (b # bs) m =
      (case tick_loop (consecutive (b # bs)) (replicate m 0, 0) of Inl e \<Rightarrow> Inl e
       | Inr (a, v) \<Rightarrow> assign_slice a sl (length a) (ramp v scl (m - sl)))"
    unfolding update_tick_to_time_def zip_consecutive l by (simp split: sum.splits)
  show ?thesis
  proof (cases "tick_loop (consecutive (b # bs)) (replicate m 0, 0)")
    case (Inl e)
    then show ?thesis using u by simp
  next
    case (Inr r)
    obtain a v where r: "r = (a, v)" by (cases r)
    have "length a = m" using tick_loop_length_any[of "consecutive (b # bs)" "replicate m 0" 0 a v] Inr r
      by simp
    then have "assign_slice a sl (length a) (ramp v scl (m - sl)) = Inr (take sl a @ ramp v scl (m - sl))"
      using final_assign[of a sl v scl] by simp
    then show ?thesis using u Inr r by auto
  qed
qed

lemma consecutive_le_last:
  "sorted (map fst ts) \<Longrightarrow> ((s0, c0), (s1, c1)) \<in> set (consecutive ts) \<Longrightarrow>
     s0 \<le> s1 \<and> s1 \<le> fst (last ts) \<and> tl ts \<noteq> []"
proof (induction ts rule: consecutive.induct)
  case (1 x y r)
  have so: "sorted (map fst (y # r))" using "1.prems"(1) by simp
  have yl: "fst y \<le> fst (last (y # r))" by (rule sorted_last_ge[OF so])
  from "1.prems"(2) consider "((s0, c0), (s1, c1)) = (x, y)" | "((s0, c0), (s1, c1)) \<in> set (consecutive (y # r))"
    by auto
  then show ?case
  proof cases
    case 1
    then show ?thesis using "1.prems"(1) yl by auto
  next
    case 2
    then show ?thesis using "1.IH"[OF so 2] by (auto split: if_splits)
  qed
qed auto

lemma update_cases:
  assumes so: "sorted (map fst (b # bs))" and up: "update_tick_to_time (b # bs) m = Inr tt"
    and l: "last (b # bs) = (sl, scl)"
  obtains a v where "tick_loop (consecutive (b # bs)) (replicate m 0, 0) = Inr (a, v)"
    and "length a = m" and "length tt = m"
    and "\<And>i. i \<le> sl \<Longrightarrow> i < m \<Longrightarrow> tt ! i = a ! i"
    and "\<And>i. sl \<le> i \<Longrightarrow> i < m \<Longrightarrow> tt ! i = tt ! sl + scl * real (i - sl)"
proof -
  from up obtain a v where
    lp: "tick_loop (consecutive (b # bs)) (replicate m 0, 0) = Inr (a, v)" and
    tt: "tt = take sl a @ ramp v scl (m - sl)"
    unfolding update_unfold[OF l] by blast
  have la: "length a = m" using tick_loop_length_any[OF lp] by simp
  have lt: "length tt = m" unfolding tt using la by simp
  have hi: "tt ! i = v + scl * real (i - sl)" if "sl \<le> i" "i < m" for i
  proof -
    have "tt ! i = ramp v scl (m - sl) ! (i - sl)"
      unfolding tt using that la by (simp add: nth_append)
    also have "\<dots> = v + scl * real (i - sl)"
      by (rule ramp_nth) (use that in auto)
    finally show ?thesis .
  qed
  have asl: "a ! sl = v" if "sl < m"
  proof (cases "bs = []")
    case True
    then show ?thesis using lp that l by auto
  next
    case False
    show ?thesis using tick_loop_last[OF so lp False] l by simp
  qed
  have lo: "tt ! i = a ! i" if "i \<le> sl" "i < m" for i
  proof (cases "i < sl")
    case True
    then show ?thesis unfolding tt using that la by (simp add: nth_append)
  next
    case False
    then have "i = sl" using that by simp
    then show ?thesis using hi[of sl] asl that by simp
  qed
  have hi': "tt ! i = tt ! sl + scl * real (i - sl)" if "sl \<le> i" "i < m" for i
    using hi[OF that] hi[of sl] that by simp
  show thesis using that[OF lp la lt lo hi'] .
qed

lemma replicate_start: "fst b < length (replicate m (0::real)) \<Longrightarrow> replicate m (0::real) ! fst b = 0"
  by simp

lemma update_segment:
  assumes so: "sorted (map fst (b # bs))" and up: "update_tick_to_time (b # bs) m = Inr tt"
    and pr: "((s0, c0), (s1, c1)) \<in> set (consecutive (b # bs))" and i: "s0 \<le> i" "i \<le> s1"
  shows "tt ! i = tt ! s0 + c0 * real (i - s0)"
proof -
  obtain sl scl where l: "last (b # bs) = (sl, scl)" by (cases "last (b # bs)")
  show ?thesis
  proof (rule update_cases[OF so up l])
    fix a v
    assume a: "tick_loop (consecutive (b # bs)) (replicate m 0, 0) = Inr (a, v)"
      "length a = m" "length tt = m"
      "\<And>i. i \<le> sl \<Longrightarrow> i < m \<Longrightarrow> tt ! i = a ! i"
      "\<And>i. sl \<le> i \<Longrightarrow> i < m \<Longrightarrow> tt ! i = tt ! sl + scl * real (i - sl)"
    have c: "s0 \<le> s1" "s1 \<le> sl" "bs \<noteq> []"
      using consecutive_le_last[OF so pr] l by auto
    have slm: "sl < m" using tick_loop_last[OF so a(1) c(3)] l by simp
    have "a ! i = a ! s0 + c0 * real (i - s0)"
      by (rule tick_loop_segment[OF so a(1) replicate_start pr i])
    moreover have "tt ! i = a ! i" by (rule a(4)) (use i c slm in auto)
    moreover have "tt ! s0 = a ! s0" by (rule a(4)) (use i c slm in auto)
    ultimately show ?thesis by simp
  qed
qed

lemma update_final:
  assumes so: "sorted (map fst (b # bs))" and up: "update_tick_to_time (b # bs) m = Inr tt"
    and i: "fst (last (b # bs)) \<le> i" "i < m"
  shows "tt ! i = tt ! fst (last (b # bs)) + snd (last (b # bs)) * real (i - fst (last (b # bs)))"
proof -
  obtain sl scl where l: "last (b # bs) = (sl, scl)" by (cases "last (b # bs)")
  show ?thesis
    by (rule update_cases[OF so up l]) (use i l in auto)
qed

lemma update_length:
  assumes "update_tick_to_time ts m = Inr tt"
  shows "length tt = m"
proof (cases ts)
  case Nil
  then show ?thesis using assms by (simp add: update_tick_to_time_def)
next
  case (Cons b bs)
  obtain sl scl where l: "last (b # bs) = (sl, scl)" by (cases "last (b # bs)")
  from assms obtain a v where
    lp: "tick_loop (consecutive (b # bs)) (replicate m 0, 0) = Inr (a, v)" and
    tt: "tt = take sl a @ ramp v scl (m - sl)"
    unfolding Cons update_unfold[OF l] by blast
  have la: "length a = m" using tick_loop_length_any[OF lp] by simp
  show ?thesis unfolding tt using la by simp
qed

lemma update_zero:
  assumes so: "sorted (map fst (b # bs))" and up: "update_tick_to_time (b # bs) m = Inr tt"
    and m: "0 < m"
  shows "tt ! 0 = 0"
proof -
  obtain sl scl where l: "last (b # bs) = (sl, scl)" by (cases "last (b # bs)")
  show ?thesis
  proof (rule update_cases[OF so up l])
    fix a v
    assume a: "tick_loop (consecutive (b # bs)) (replicate m 0, 0) = Inr (a, v)"
      "length a = m" "length tt = m"
      "\<And>i. i \<le> sl \<Longrightarrow> i < m \<Longrightarrow> tt ! i = a ! i"
      "\<And>i. sl \<le> i \<Longrightarrow> i < m \<Longrightarrow> tt ! i = tt ! sl + scl * real (i - sl)"
    have "a ! 0 = replicate m 0 ! 0"
      by (rule tick_loop_pres[OF so a(1) replicate_start]) (use m in auto)
    then show ?thesis using a(4)[of 0] m by simp
  qed
qed

lemma update_mono:
  assumes so: "sorted (map fst (b # bs))" and up: "update_tick_to_time (b # bs) m = Inr tt"
    and b0: "fst b = 0" and nn: "\<And>y. y \<in> set (b # bs) \<Longrightarrow> 0 \<le> snd y"
    and ij: "i \<le> j" "j < m"
  shows "tt ! i \<le> tt ! j"
proof -
  obtain sl scl where l: "last (b # bs) = (sl, scl)" by (cases "last (b # bs)")
  show ?thesis
  proof (rule update_cases[OF so up l])
    fix a v
    assume a: "tick_loop (consecutive (b # bs)) (replicate m 0, 0) = Inr (a, v)"
      "length a = m" "length tt = m"
      "\<And>i. i \<le> sl \<Longrightarrow> i < m \<Longrightarrow> tt ! i = a ! i"
      "\<And>i. sl \<le> i \<Longrightarrow> i < m \<Longrightarrow> tt ! i = tt ! sl + scl * real (i - sl)"
    have "last (b # bs) \<in> set (b # bs)" by (rule last_in_set) simp
    then have "0 \<le> snd (last (b # bs))" by (rule nn)
    then have scl0: "0 \<le> scl" unfolding l by simp
    have low: "tt ! i' \<le> tt ! j'" if "i' \<le> j'" "j' \<le> sl" "j' < m" for i' j'
    proof (cases "bs = []")
      case True
      then have "sl = 0" using l b0 by auto
      then show ?thesis using that by simp
    next
      case False
      have "a ! i' \<le> a ! j'"
        by (rule tick_loop_mono[OF so a(1) replicate_start nn _ that(1) _ False])
           (use b0 that l in auto)
      then show ?thesis using a(4)[of i'] a(4)[of j'] that by simp
    qed
    have high: "tt ! i' \<le> tt ! j'" if "sl \<le> i'" "i' \<le> j'" "j' < m" for i' j'
    proof -
      have "real (i' - sl) \<le> real (j' - sl)" using that by simp
      then have "scl * real (i' - sl) \<le> scl * real (j' - sl)"
        using scl0 by (rule mult_left_mono)
      then show ?thesis using a(5)[of i'] a(5)[of j'] that by simp
    qed
    show ?thesis
    proof (cases "j \<le> sl")
      case True
      then show ?thesis using low ij by simp
    next
      case False
      show ?thesis
      proof (cases "sl \<le> i")
        case True
        then show ?thesis using high ij by simp
      next
        case F2: False
        have "tt ! i \<le> tt ! sl" using low[of i sl] F2 False ij by simp
        also have "tt ! sl \<le> tt ! j" using high[of sl j] False ij by simp
        finally show ?thesis .
      qed
    qed
  qed
qed

lemma update_total:
  assumes "sorted (map fst (b # bs))" and "\<And>y. y \<in> set (b # bs) \<Longrightarrow> fst y < m"
  shows "\<exists>tt. update_tick_to_time (b # bs) m = Inr tt"
proof -
  obtain sl scl where l: "last (b # bs) = (sl, scl)" by (cases "last (b # bs)")
  have "\<exists>r. tick_loop (consecutive (b # bs)) (replicate m 0, 0) = Inr r"
    by (rule tick_loop_total[OF assms(1)]) (use assms(2) in auto)
  then obtain a v where "tick_loop (consecutive (b # bs)) (replicate m 0, 0) = Inr (a, v)"
    by force
  then show ?thesis unfolding update_unfold[OF l] by blast
qed

lemma fold_max_ge: "(x::'a::linorder) \<le> fold max xs x \<and> (\<forall>y \<in> set xs. y \<le> fold max xs x)"
proof (induction xs arbitrary: x)
  case Nil
  then show ?case by simp
next
  case (Cons z zs)
  have "max z x \<le> fold max zs (max z x)" "\<forall>y \<in> set zs. y \<le> fold max zs (max z x)"
    using Cons.IH[of "max z x"] by auto
  then show ?case by auto
qed

lemma fold_max_in: "fold max xs (x::'a::linorder) \<in> set (x # xs)"
proof (induction xs arbitrary: x)
  case Nil
  then show ?case by simp
next
  case (Cons z zs)
  have a: "fold max zs (max z x) = max z x \<or> fold max zs (max z x) \<in> set zs"
    using Cons.IH[of "max z x"] by simp
  have b: "max z x = z \<or> max z x = x" by (simp add: max_def)
  show ?case using a b by auto
qed

lemma py_max_Inr:
  assumes "py_max xs = Inr (m::'a::linorder)"
  shows "m \<in> set xs \<and> (\<forall>y \<in> set xs. y \<le> m)"
proof (cases xs)
  case Nil
  then show ?thesis using assms by simp
next
  case (Cons a list)
  then have "m = fold max list a" using assms by simp
  then show ?thesis using Cons fold_max_ge[of a list] fold_max_in[of list a] by auto
qed

lemma map_err_Inr:
  "map_err f xs = Inr ys \<Longrightarrow> list_all2 (\<lambda>x y. f x = Inr y) xs ys"
  by (induction xs arbitrary: ys) (auto split: sum.splits)

lemma compute_max_tick_bounds:
  assumes "compute_max_tick midi_data = Inr m"
  shows "(\<forall>track \<in> set midi_data. \<forall>e \<in> set track. tick e < m) \<and>
         (\<exists>track \<in> set midi_data. \<exists>e \<in> set track. m = tick e + 1)"
proof -
  from assms obtain ms k where
    ms: "map_err (\<lambda>track. py_max (map tick track)) midi_data = Inr ms" and
    k: "py_max ms = Inr k" and m: "m = k + 1"
    by (auto simp: compute_max_tick_def split: sum.splits)
  have rel: "list_all2 (\<lambda>track y. py_max (map tick track) = Inr y) midi_data ms"
    using map_err_Inr[OF ms] .
  have kin: "k \<in> set ms" and kmax: "\<forall>y \<in> set ms. y \<le> k"
    using py_max_Inr[OF k] by auto
  have "tick e < m" if "track \<in> set midi_data" "e \<in> set track" for track e
  proof -
    from that(1) obtain n where n: "n < length midi_data" "midi_data ! n = track"
      by (auto simp: in_set_conv_nth)
    define y where "y = ms ! n"
    have y: "y \<in> set ms" "py_max (map tick track) = Inr y"
      using list_all2_nthD[OF rel n(1)] list_all2_lengthD[OF rel] n by (auto simp: y_def)
    have "tick e \<le> y" using py_max_Inr[OF y(2)] that(2) by auto
    then show ?thesis using kmax y(1) m by auto
  qed
  moreover have "\<exists>track \<in> set midi_data. \<exists>e \<in> set track. m = tick e + 1"
  proof -
    from kin obtain n where n: "n < length ms" "ms ! n = k"
      by (auto simp: in_set_conv_nth)
    define track where "track = midi_data ! n"
    have t: "track \<in> set midi_data" "py_max (map tick track) = Inr k"
      using list_all2_nthD2[OF rel n(1)] list_all2_lengthD[OF rel] n by (auto simp: track_def)
    have "k \<in> set (map tick track)" using py_max_Inr[OF t(2)] by simp
    then show ?thesis using t(1) m by auto
  qed
  ultimately show ?thesis by blast
qed

lemma tempo_loop_ticks:
  "tempo_loop res evs ts = Inr r \<Longrightarrow> x \<in> set r \<Longrightarrow>
     fst x = 0 \<or> x \<in> set ts \<or> fst x \<in> tick ` set evs"
proof (induction res evs ts rule: tempo_loop.induct)
  case (2 res t b evs ts)
  then show ?case
    by (auto split: if_splits sum.splits)
qed auto

lemma tempo_loop_pos:
  "tempo_loop res evs ts = Inr r \<Longrightarrow> 0 < res \<Longrightarrow> \<forall>b \<in> set (tempo_bpms evs). 0 < b \<Longrightarrow>
     \<forall>x \<in> set ts. 0 < snd x \<Longrightarrow> \<forall>x \<in> set r. 0 < snd x"
proof (induction res evs ts rule: tempo_loop.induct)
  case (2 res t b evs ts)
  then show ?case
    by (auto simp: tick_scale_of_def split: if_splits sum.splits)
qed auto

lemma get_tempo_changes_facts:
  assumes "get_tempo_changes (track0 # tracks) res = Inr ts"
  shows "ts \<noteq> []" and "fst (hd ts) = 0"
    and "sorted (map tick track0) \<Longrightarrow> sorted (map fst ts)"
    and "\<And>x. x \<in> set ts \<Longrightarrow> fst x = 0 \<or> fst x \<in> tick ` set track0"
    and "0 < res \<Longrightarrow> \<forall>b \<in> set (tempo_bpms track0). 0 < b \<Longrightarrow> \<forall>x \<in> set ts. 0 < snd x"
proof -
  from assms obtain sc where
    sc: "tick_scale_of 120 res = Inr sc" and
    lp: "tempo_loop res track0 [(0, sc)] = Inr ts"
    by (auto simp: get_tempo_changes_def split: sum.splits)
  show "ts \<noteq> []" "fst (hd ts) = 0" using tempo_loop_inv[OF lp] by simp_all
  show "sorted (map fst ts)" if "sorted (map tick track0)"
    using tempo_loop_sorted[OF lp that] by simp
  show "fst x = 0 \<or> fst x \<in> tick ` set track0" if "x \<in> set ts" for x
    using tempo_loop_ticks[OF lp that] by auto
  show "\<forall>x \<in> set ts. 0 < snd x" if "0 < res" "\<forall>b \<in> set (tempo_bpms track0). 0 < b"
  proof -
    have "0 < sc" using sc that(1) by (auto simp: tick_scale_of_def split: if_splits)
    then show ?thesis using tempo_loop_pos[OF lp that] by simp
  qed
qed

text \<open>
  The claim C3 as stated fails on the size of the array: for a file whose last event is at
  tick 4, \<^verbatim>\<open>max_tick\<close> is 5 and the array has 5 entries, for the ticks 0 to 4, not
  \<^verbatim>\<open>max_tick + 1\<close>; there is no entry for the index \<^verbatim>\<open>max_tick\<close> itself.
\<close>

theorem lookup_size_counterexample:
  "compute_max_tick [[NoteOn 0 0 60 100, NoteOff 4 0 60 64]] = Inr 5 \<and>
   get_tempo_changes [[NoteOn 0 0 60 100, NoteOff 4 0 60 64]] 2 = Inr [(0, 1 / 4)] \<and>
   update_tick_to_time [(0, 1 / 4)] 5 = Inr [0, 1 / 4, 1 / 2, 3 / 4, 1] \<and>
   length [0, 1 / 4, 1 / 2, 3 / 4, 1 :: real] \<noteq> 5 + 1"
  by (simp add: ev_simps upt_rec numeral_eq_Suc)

text \<open>
  C3, as amended. Given the breakpoints of a track 0 that is ordered by tick and the
  \<^verbatim>\<open>max_tick\<close> of the constructor (the largest tick of all tracks plus one), the lookup
  array is built without error and has exactly \<^verbatim>\<open>max_tick\<close> entries, so that the tick
  of every event of every track has an entry and the last entry is the one of the largest
  tick. Between two consecutive breakpoints \<open>(t0, s0)\<close>, \<open>(t1, s1)\<close> every index \<open>i\<close> from
  \<open>t0\<close> to \<open>t1\<close> holds the time of \<open>t0\<close> plus \<open>s0 * (i - t0)\<close>, and from the last
  breakpoint to the end of the array the rate of the last breakpoint is used.
\<close>

theorem tick_to_time_lookup:
  assumes "get_tempo_changes (track0 # tracks) res = Inr ts"
    and "compute_max_tick (track0 # tracks) = Inr max_tick"
    and "sorted (map tick track0)"
  shows "\<exists>tt. update_tick_to_time ts max_tick = Inr tt \<and> length tt = max_tick \<and>
      (\<forall>track \<in> set (track0 # tracks). \<forall>e \<in> set track. tick e < length tt) \<and>
      (\<exists>track \<in> set (track0 # tracks). \<exists>e \<in> set track. length tt = tick e + 1) \<and>
      (\<forall>p \<in> set (zip (butlast ts) (tl ts)). \<forall>i. fst (fst p) \<le> i \<and> i \<le> fst (snd p) \<longrightarrow>
          tt ! i = tt ! fst (fst p) + snd (fst p) * real (i - fst (fst p))) \<and>
      (\<forall>i. fst (last ts) \<le> i \<and> i < max_tick \<longrightarrow>
          tt ! i = tt ! fst (last ts) + snd (last ts) * real (i - fst (last ts)))"
proof -
  note f = get_tempo_changes_facts[OF assms(1)]
  obtain b bs where ts: "ts = b # bs" using f(1) by (cases ts) auto
  have so: "sorted (map fst (b # bs))" using f(3)[OF assms(3)] ts by simp
  note mb = compute_max_tick_bounds[OF assms(2)]
  have pos: "0 < max_tick" using mb by auto
  have inr: "fst y < max_tick" if "y \<in> set (b # bs)" for y
    using f(4)[of y] that ts mb pos by auto
  obtain tt where tt: "update_tick_to_time (b # bs) max_tick = Inr tt"
    using update_total[OF so inr] by blast
  have len: "length tt = max_tick" using update_length[OF tt] .
  have seg: "\<forall>p \<in> set (zip (butlast (b # bs)) (tl (b # bs))). \<forall>i. fst (fst p) \<le> i \<and> i \<le> fst (snd p) \<longrightarrow>
          tt ! i = tt ! fst (fst p) + snd (fst p) * real (i - fst (fst p))"
  proof (intro ballI allI impI)
    fix p i
    assume p: "p \<in> set (zip (butlast (b # bs)) (tl (b # bs)))"
      and i: "fst (fst p) \<le> i \<and> i \<le> fst (snd p)"
    obtain s0 c0 s1 c1 where pe: "p = ((s0, c0), (s1, c1))" by (cases p) auto
    have "((s0, c0), (s1, c1)) \<in> set (consecutive (b # bs))"
      using p unfolding zip_consecutive pe .
    from update_segment[OF so tt this, of i] i
    show "tt ! i = tt ! fst (fst p) + snd (fst p) * real (i - fst (fst p))"
      by (simp add: pe)
  qed
  have fin: "\<forall>i. fst (last (b # bs)) \<le> i \<and> i < max_tick \<longrightarrow>
          tt ! i = tt ! fst (last (b # bs)) + snd (last (b # bs)) * real (i - fst (last (b # bs)))"
    using update_final[OF so tt] by blast
  have "\<forall>track \<in> set (track0 # tracks). \<forall>e \<in> set track. tick e < length tt"
    unfolding len using mb by (rule conjunct1)
  moreover have "\<exists>track \<in> set (track0 # tracks). \<exists>e \<in> set track. length tt = tick e + 1"
    unfolding len using mb by (rule conjunct2)
  ultimately show ?thesis
    unfolding ts using tt len seg fin by blast
qed

theorem tick_to_time_lookup_witness:
  "get_tempo_changes ([SetTempo 0 120, NoteOn 0 0 60 100, SetTempo 2 60, NoteOff 4 0 60 64] # []) 2 = Inr [(0::nat, 1 / 4 :: real), (2, 1 / 2)] \<and>
   compute_max_tick ([SetTempo 0 120, NoteOn 0 0 60 100, SetTempo 2 60, NoteOff 4 0 60 64] # []) = Inr 5 \<and>
   sorted (map tick [SetTempo 0 120, NoteOn 0 0 60 100, SetTempo 2 60, NoteOff 4 0 60 64]) \<and>
   update_tick_to_time [(0::nat, 1 / 4 :: real), (2, 1 / 2)] 5 = Inr [0, 1 / 4, 1 / 2, 1, 3 / 2] \<and>
   (\<exists>tt. update_tick_to_time [(0::nat, 1 / 4 :: real), (2, 1 / 2)] 5 = Inr tt \<and> length tt = 5 \<and>
      (\<forall>track \<in> set ([SetTempo 0 120, NoteOn 0 0 60 100, SetTempo 2 60, NoteOff 4 0 60 64] # []). \<forall>e \<in> set track. tick e < length tt) \<and>
      (\<exists>track \<in> set ([SetTempo 0 120, NoteOn 0 0 60 100, SetTempo 2 60, NoteOff 4 0 60 64] # []). \<exists>e \<in> set track. length tt = tick e + 1) \<and>
      (\<forall>p \<in> set (zip (butlast [(0::nat, 1 / 4 :: real), (2, 1 / 2)]) (tl [(0::nat, 1 / 4 :: real), (2, 1 / 2)])). \<forall>i. fst (fst p) \<le> i \<and> i \<le> fst (snd p) \<longrightarrow>
          tt ! i = tt ! fst (fst p) + snd (fst p) * real (i - fst (fst p))) \<and>
      (\<forall>i. fst (last [(0::nat, 1 / 4 :: real), (2, 1 / 2)]) \<le> i \<and> i < 5 \<longrightarrow>
          tt ! i = tt ! fst (last [(0::nat, 1 / 4 :: real), (2, 1 / 2)]) + snd (last [(0::nat, 1 / 4 :: real), (2, 1 / 2)]) * real (i - fst (last [(0::nat, 1 / 4 :: real), (2, 1 / 2)]))))"
proof -
  have h1: "get_tempo_changes ([SetTempo 0 120, NoteOn 0 0 60 100, SetTempo 2 60, NoteOff 4 0 60 64] # []) 2 = Inr [(0::nat, 1 / 4 :: real), (2, 1 / 2)]"
    by (simp add: get_tempo_changes_def tick_scale_of_def)
  have h2: "compute_max_tick ([SetTempo 0 120, NoteOn 0 0 60 100, SetTempo 2 60, NoteOff 4 0 60 64] # []) = Inr 5"
    by (simp add: compute_max_tick_def)
  have h3: "sorted (map tick [SetTempo 0 120, NoteOn 0 0 60 100, SetTempo 2 60, NoteOff 4 0 60 64])" by simp
  have h4: "update_tick_to_time [(0::nat, 1 / 4 :: real), (2, 1 / 2)] 5 = Inr [0, 1 / 4, 1 / 2, 1, 3 / 2]"
    by (simp add: ev_simps upt_rec numeral_eq_Suc)
  show ?thesis
    by (intro conjI h1 h2 h3 h4 tick_to_time_lookup[OF h1 h2 h3])
qed

text \<open>
  C6. For the breakpoints of a track 0 that is ordered by tick, with a positive resolution
  and positive BPM values, and for every \<^verbatim>\<open>max_tick\<close>: whenever the lookup array is
  returned, it has \<^verbatim>\<open>max_tick\<close> entries, the time of tick 0 is 0, and the times are
  non-decreasing over the whole array; and it is returned whenever \<^verbatim>\<open>max_tick\<close> is
  above every tick of the track, as it is in the constructor.
\<close>

theorem tick_to_time_monotone:
  assumes "get_tempo_changes (track0 # tracks) res = Inr ts"
    and "sorted (map tick track0)" and "0 < res"
    and "\<forall>b \<in> set (tempo_bpms track0). 0 < b"
  shows "(0 < max_tick \<and> (\<forall>e \<in> set track0. tick e < max_tick) \<longrightarrow>
           (\<exists>tt. update_tick_to_time ts max_tick = Inr tt)) \<and>
         (\<forall>tt. update_tick_to_time ts max_tick = Inr tt \<longrightarrow>
            length tt = max_tick \<and> (0 < max_tick \<longrightarrow> tt ! 0 = 0) \<and>
            (\<forall>i j. i \<le> j \<and> j < length tt \<longrightarrow> tt ! i \<le> tt ! j))"
proof -
  note f = get_tempo_changes_facts[OF assms(1)]
  obtain b bs where ts: "ts = b # bs" using f(1) by (cases ts) auto
  have so: "sorted (map fst (b # bs))" using f(3)[OF assms(2)] ts by simp
  have b0: "fst b = 0" using f(2) ts by simp
  have nn: "0 \<le> snd y" if "y \<in> set (b # bs)" for y
    using f(5)[OF assms(3,4)] that ts by (auto simp: less_imp_le)
  have total: "\<exists>tt. update_tick_to_time (b # bs) max_tick = Inr tt"
    if "0 < max_tick \<and> (\<forall>e \<in> set track0. tick e < max_tick)"
  proof (rule update_total[OF so])
    fix y assume "y \<in> set (b # bs)"
    then show "fst y < max_tick" using f(4)[of y] that ts by auto
  qed
  have props: "length tt = max_tick \<and> (0 < max_tick \<longrightarrow> tt ! 0 = 0) \<and>
            (\<forall>i j. i \<le> j \<and> j < length tt \<longrightarrow> tt ! i \<le> tt ! j)"
    if tt: "update_tick_to_time (b # bs) max_tick = Inr tt" for tt
  proof (intro conjI allI impI)
    show len: "length tt = max_tick" using update_length[OF tt] .
    show "tt ! 0 = 0" if "0 < max_tick" using update_zero[OF so tt that] .
    show "tt ! i \<le> tt ! j" if "i \<le> j \<and> j < length tt" for i j
      by (rule update_mono[OF so tt b0 nn]) (use that len in auto)
  qed
  show ?thesis unfolding ts using total props by blast
qed


theorem tick_to_time_monotone_witness:
  "get_tempo_changes ([SetTempo 0 120, NoteOn 0 0 60 100, SetTempo 2 60, NoteOff 4 0 60 64] # []) 2 = Inr [(0::nat, 1 / 4 :: real), (2, 1 / 2)] \<and>
   sorted (map tick [SetTempo 0 120, NoteOn 0 0 60 100, SetTempo 2 60, NoteOff 4 0 60 64]) \<and> (0::int) < 2 \<and>
   list_all (\<lambda>b. 0 < b) (tempo_bpms [SetTempo 0 120, NoteOn 0 0 60 100, SetTempo 2 60, NoteOff 4 0 60 64]) \<and>
   update_tick_to_time [(0::nat, 1 / 4 :: real), (2, 1 / 2)] 5 = Inr [0, 1 / 4, 1 / 2, 1, 3 / 2 :: real] \<and>
   length [0, 1 / 4, 1 / 2, 1, 3 / 2 :: real] = 5 \<and> [0, 1 / 4, 1 / 2, 1, 3 / 2 :: real] ! 0 = 0 \<and> sorted [0, 1 / 4, 1 / 2, 1, 3 / 2 :: real]"
proof -
  have h1: "get_tempo_changes ([SetTempo 0 120, NoteOn 0 0 60 100, SetTempo 2 60, NoteOff 4 0 60 64] # []) 2 = Inr [(0::nat, 1 / 4 :: real), (2, 1 / 2)]"
    by (simp add: get_tempo_changes_def tick_scale_of_def)
  have h2: "sorted (map tick [SetTempo 0 120, NoteOn 0 0 60 100, SetTempo 2 60, NoteOff 4 0 60 64])" by simp
  have h3: "(0::int) < 2" by simp
  have h4: "\<forall>b \<in> set (tempo_bpms [SetTempo 0 120, NoteOn 0 0 60 100, SetTempo 2 60, NoteOff 4 0 60 64]). 0 < b" by simp
  have h5: "update_tick_to_time [(0::nat, 1 / 4 :: real), (2, 1 / 2)] 5 = Inr [0, 1 / 4, 1 / 2, 1, 3 / 2 :: real]"
    by (simp add: ev_simps upt_rec numeral_eq_Suc)
  have c: "length [0, 1 / 4, 1 / 2, 1, 3 / 2 :: real] = 5 \<and> (0 < (5::nat) \<longrightarrow> [0, 1 / 4, 1 / 2, 1, 3 / 2 :: real] ! 0 = 0) \<and>
            (\<forall>i j. i \<le> j \<and> j < length [0, 1 / 4, 1 / 2, 1, 3 / 2 :: real] \<longrightarrow> [0, 1 / 4, 1 / 2, 1, 3 / 2 :: real] ! i \<le> [0, 1 / 4, 1 / 2, 1, 3 / 2 :: real] ! j)"
    using tick_to_time_monotone[OF h1 h2 h3 h4, of 5, THEN conjunct2] h5 by blast
  have s: "sorted [0, 1 / 4, 1 / 2, 1, 3 / 2 :: real]"
    unfolding sorted_iff_nth_mono using c by blast
  have l: "list_all (\<lambda>b. 0 < b) (tempo_bpms [SetTempo 0 120, NoteOn 0 0 60 100, SetTempo 2 60, NoteOff 4 0 60 64])" by simp
  show ?thesis using h1 h2 h3 l h5 c s by simp
qed

section \<open>Properties of the piano roll\<close>

lemmas roll_simps = get_piano_roll_def native_piano_roll_def np_dim_def py_int_def zeros_def
  add_note_roll_def slice_bound_def integrate_def to_int16_def Note_def Let_def

text \<open>
  The claim C4 as stated fails on the number of columns: for an instrument with one note
  and a grid of three times, every row of the result has three entries, as many as the
  grid, not one fewer.
\<close>

theorem resample_columns_counterexample:
  "map_sum id (map length)
     (get_piano_roll \<lparr>program = 0, is_drum = False, events = [Note 100 60 0 (1 / 50)],
                      pitch_changes = []\<rparr> (Some [0, 1 / 100, 1 / 50])) =
     Inr (replicate 128 3) \<and>
   (3::nat) \<noteq> length [0, 1 / 100, 1 / 50 :: real] - 1"
  by (simp add: roll_simps comp_def map_replicate_const)

lemma integrate_row_length: "row \<in> set (integrate piano_roll ts) \<Longrightarrow> length row = length ts"
  by (auto simp: integrate_def)

lemma integrate_length: "length (integrate piano_roll ts) = length piano_roll"
  by (simp add: integrate_def)

lemma integrate_nth:
  "r < length piano_roll \<Longrightarrow> n < length ts \<Longrightarrow>
     integrate piano_roll ts ! r ! n =
       (if n + 1 < length ts
        then mean_int16 (py_slice (piano_roll ! r) (py_int (ts ! n * 100)) (py_int (ts ! (n + 1) * 100)))
        else 0)"
  by (simp add: integrate_def)

text \<open>
  C4, as amended. For an instrument with at least one note and a supplied grid, the piano
  roll returned has exactly as many columns as the grid has entries. For a drum instrument
  it is the zero matrix. Otherwise, with the piano roll at 100 Hz of the instrument, each
  column \<open>n\<close> that has a following grid entry holds, in each row, the mean (truncated to
  an integer, the matrix being of integers) of the 100 Hz columns from
  \<open>int(times[n]*100)\<close> up to, not including, \<open>int(times[n+1]*100)\<close>, when there is at
  least one such column; the last column is zero.
\<close>

theorem resampled_piano_roll:
  assumes "events self \<noteq> []" and "get_piano_roll self (Some ts) = Inr m"
  shows "(\<forall>row \<in> set m. length row = length ts) \<and>
         (is_drum self \<longrightarrow> m = zeros 128 (length ts)) \<and>
         (\<not> is_drum self \<longrightarrow>
            (\<exists>piano_roll. native_piano_roll self = Inr piano_roll \<and> length m = length piano_roll \<and>
               (\<forall>r n. r < length piano_roll \<and> n + 1 < length ts \<and>
                      py_slice (piano_roll ! r) (py_int (ts ! n * 100)) (py_int (ts ! (n + 1) * 100)) \<noteq> [] \<longrightarrow>
                      m ! r ! n =
                        py_int (real_of_int (sum_list
                            (py_slice (piano_roll ! r) (py_int (ts ! n * 100)) (py_int (ts ! (n + 1) * 100)))) /
                          real (length
                            (py_slice (piano_roll ! r) (py_int (ts ! n * 100)) (py_int (ts ! (n + 1) * 100)))))) \<and>
               (\<forall>r. r < length piano_roll \<and> ts \<noteq> [] \<longrightarrow> m ! r ! (length ts - 1) = 0)))"
proof (cases "is_drum self")
  case True
  then have m: "m = zeros 128 (length ts)"
    using assms by (auto simp: get_piano_roll_def split: sum.splits)
  then show ?thesis using True by (auto simp: zeros_def)
next
  case False
  then obtain piano_roll where
    pr: "native_piano_roll self = Inr piano_roll" and m: "m = integrate piano_roll ts"
    using assms by (auto simp: get_piano_roll_def split: sum.splits)
  have c1: "\<forall>row \<in> set m. length row = length ts"
    using integrate_row_length m by blast
  have c2: "length m = length piano_roll" using m by (simp add: integrate_length)
  have c3: "m ! r ! n =
        py_int (real_of_int (sum_list
            (py_slice (piano_roll ! r) (py_int (ts ! n * 100)) (py_int (ts ! (n + 1) * 100)))) /
          real (length
            (py_slice (piano_roll ! r) (py_int (ts ! n * 100)) (py_int (ts ! (n + 1) * 100)))))"
    if "r < length piano_roll \<and> n + 1 < length ts \<and>
        py_slice (piano_roll ! r) (py_int (ts ! n * 100)) (py_int (ts ! (n + 1) * 100)) \<noteq> []" for r n
    using that by (simp add: m integrate_nth mean_int16_def)
  have c4: "m ! r ! (length ts - 1) = 0" if "r < length piano_roll \<and> ts \<noteq> []" for r
    using that by (simp add: m integrate_nth)
  show ?thesis using False pr c1 c2 c3 c4 by blast
qed


theorem resampled_piano_roll_witness:
  "events \<lparr>program = 0, is_drum = False, events = [Note 100 60 0 (1 / 50)], pitch_changes = []\<rparr> \<noteq> [] \<and>
   get_piano_roll \<lparr>program = 0, is_drum = False, events = [Note 100 60 0 (1 / 50)], pitch_changes = []\<rparr> (Some [0, 1 / 100, 1 / 50]) = Inr ((replicate 128 [0, 0, 0 :: int])[60 := [100, 100, 0]]) \<and>
   list_all (\<lambda>row. length row = length [0, 1 / 100, 1 / 50 :: real]) ((replicate 128 [0, 0, 0 :: int])[60 := [100, 100, 0]]) \<and>
   native_piano_roll \<lparr>program = 0, is_drum = False, events = [Note 100 60 0 (1 / 50)], pitch_changes = []\<rparr> = Inr ((replicate 128 [0, 0])[60 := [100, 100]])"
proof -
  have h1: "events \<lparr>program = 0, is_drum = False, events = [Note 100 60 0 (1 / 50)], pitch_changes = []\<rparr> \<noteq> []" by simp
  have h2: "get_piano_roll \<lparr>program = 0, is_drum = False, events = [Note 100 60 0 (1 / 50)], pitch_changes = []\<rparr> (Some [0, 1 / 100, 1 / 50]) = Inr ((replicate 128 [0, 0, 0 :: int])[60 := [100, 100, 0]])"
    by (simp add: roll_simps py_slice_def mean_int16_def map_update upt_rec numeral_eq_Suc)
  have h3: "native_piano_roll \<lparr>program = 0, is_drum = False, events = [Note 100 60 0 (1 / 50)], pitch_changes = []\<rparr> = Inr ((replicate 128 [0, 0])[60 := [100, 100]])"
    by (simp add: roll_simps upt_rec numeral_eq_Suc)
  have c: "list_all (\<lambda>row. length row = length [0, 1 / 100, 1 / 50 :: real]) ((replicate 128 [0, 0, 0 :: int])[60 := [100, 100, 0]])"
    unfolding list_all_iff using resampled_piano_roll[OF h1 h2, THEN conjunct1] .
  show ?thesis
    using h1 h2 h3 c by (intro conjI)
qed

section \<open>Properties of the synthesis\<close>

lemmas synth_simps = PrettyMIDI_synthesize_def mix_waveforms_def synthesize_def synthesize_note_def
  note_envelope_def add_slice_def add_waveform_def normalize_def np_divide_def np_dim_def
  py_int_def slice_bound_def linspace_1_0_def Note_def Let_def

lemma py_max_total: "xs \<noteq> [] \<Longrightarrow> \<exists>m. py_max xs = Inr m"
  by (cases xs) auto

lemma py_max_replicate: "0 < n \<Longrightarrow> py_max (replicate n (x::'a::linorder)) = Inr x"
proof -
  assume "0 < n"
  then obtain m where m: "py_max (replicate n x) = Inr m"
    using py_max_total[of "replicate n x"] by auto
  then have "m \<in> set (replicate n x)" using py_max_Inr by blast
  then show ?thesis using m by simp
qed

lemma fold_max_replicate_le: "(y::'a::linorder) \<le> x \<Longrightarrow> fold max (replicate n y) x = x"
  by (induction n) (auto simp: max_def)

lemma normalize_zero: "0 < n \<Longrightarrow> normalize (replicate n 0) = Inr (replicate n None)"
  by (simp add: normalize_def py_max_replicate np_divide_def)

lemma normalize_Inr:
  assumes "normalize mix = Inr out"
  shows "length out = length mix"
    and "(\<exists>x \<in> set mix. x \<noteq> 0) \<Longrightarrow>
           (\<forall>s \<in> set out. \<exists>y. s = Some y \<and> \<bar>y\<bar> \<le> 1) \<and> (\<exists>s \<in> set out. \<exists>y. s = Some y \<and> \<bar>y\<bar> = 1)"
    and "(\<forall>x \<in> set mix. x = 0) \<Longrightarrow> \<forall>s \<in> set out. s = None"
proof -
  from assms obtain peak where
    pk: "py_max (map abs mix) = Inr peak" and out: "out = map (\<lambda>x. np_divide x peak) mix"
    by (auto simp: normalize_def split: sum.splits)
  have pin: "peak \<in> set (map abs mix)" and pmax: "\<forall>y \<in> set (map abs mix). y \<le> peak"
    using py_max_Inr[OF pk] by auto
  show "length out = length mix" using out by simp
  show "(\<forall>s \<in> set out. \<exists>y. s = Some y \<and> \<bar>y\<bar> \<le> 1) \<and> (\<exists>s \<in> set out. \<exists>y. s = Some y \<and> \<bar>y\<bar> = 1)"
    if "\<exists>x \<in> set mix. x \<noteq> 0"
  proof -
    from that obtain x0 where x0: "x0 \<in> set mix" "x0 \<noteq> 0" by blast
    have "\<bar>x0\<bar> \<le> peak" using pmax x0(1) by simp
    then have pos: "0 < peak" using x0(2) by simp
    have le: "\<bar>x / peak\<bar> \<le> 1" if "x \<in> set mix" for x
    proof -
      have "\<bar>x\<bar> \<le> peak" using pmax that by simp
      then show ?thesis using pos by simp
    qed
    from pin obtain xp where xp: "xp \<in> set mix" "peak = \<bar>xp\<bar>" by auto
    have one: "\<bar>xp / peak\<bar> = 1" using xp(2) pos by simp
    have "\<forall>s \<in> set out. \<exists>y. s = Some y \<and> \<bar>y\<bar> \<le> 1"
      using le pos by (auto simp: out np_divide_def)
    moreover have "Some (xp / peak) \<in> set out"
      using xp(1) pos by (auto simp: out np_divide_def image_iff)
    ultimately show ?thesis using one by blast
  qed
  show "\<forall>s \<in> set out. s = None" if "\<forall>x \<in> set mix. x = 0"
  proof -
    have "peak = 0" using pin that by auto
    then show ?thesis by (auto simp: out np_divide_def)
  qed
qed

lemma add_waveform_zero:
  "n \<le> len \<Longrightarrow> add_waveform (replicate len 0) (replicate n 0) = replicate len 0"
  by (simp add: add_waveform_def zip_replicate min_def replicate_add[symmetric])

lemma fold_add_waveform_zero:
  "(\<And>w. w \<in> set ws \<Longrightarrow> \<exists>n \<le> len. w = replicate n 0) \<Longrightarrow>
     fold (\<lambda>waveform acc. add_waveform acc waveform) ws (replicate len 0) = replicate len 0"
proof (induction ws)
  case Nil
  then show ?case by simp
next
  case (Cons w ws)
  obtain n where n: "n \<le> len" "w = replicate n 0" using Cons.prems[of w] by auto
  have "fold (\<lambda>waveform acc. add_waveform acc waveform) ws (replicate len 0) = replicate len 0"
    by (rule Cons.IH) (use Cons.prems in auto)
  then show ?case using n by (simp add: add_waveform_zero)
qed


lemma synthesize_drum:
  assumes "is_drum i" and "events i \<noteq> []" and "\<forall>n \<in> set (events i). 0 \<le> endt n" and "1 \<le> fs"
  shows "\<exists>n > 0. synthesize i fs wave = Inr (replicate n 0)"
proof -
  obtain m where m: "py_max (map endt (events i)) = Inr m"
    using py_max_total[of "map endt (events i)"] assms(2) by auto
  have "m \<in> set (map endt (events i))" using py_max_Inr[OF m] by simp
  then have m0: "0 \<le> m" using assms(3) by auto
  have "1 * 1 \<le> fs * (m + 1)"
    by (rule mult_mono) (use assms(4) m0 in auto)
  then have ge: "1 \<le> fs * (m + 1)" by simp
  then have "1 \<le> \<lfloor>fs * (m + 1)\<rfloor>" by linarith
  then have "np_dim (fs * (m + 1)) = Inr (nat \<lfloor>fs * (m + 1)\<rfloor>) \<and> 0 < nat \<lfloor>fs * (m + 1)\<rfloor>"
    using ge by (simp add: np_dim_def py_int_def)
  then show ?thesis using m assms(1) by (auto simp: synthesize_def)
qed

lemma map_err_total:
  "(\<And>x. x \<in> set xs \<Longrightarrow> \<exists>y. f x = Inr y \<and> P y) \<Longrightarrow>
     \<exists>ys. map_err f xs = Inr ys \<and> length ys = length xs \<and> (\<forall>y \<in> set ys. P y)"
proof (induction xs)
  case Nil
  then show ?case by simp
next
  case (Cons x xs)
  obtain y where y: "f x = Inr y" "P y" using Cons.prems[of x] by auto
  obtain ys where ys: "map_err f xs = Inr ys" "length ys = length xs" "\<forall>y \<in> set ys. P y"
    using Cons.IH Cons.prems by auto
  show ?case using y ys by simp
qed

lemma all_drum_mix:
  assumes "instruments self \<noteq> []" and "1 \<le> fs"
    and "\<forall>i \<in> set (instruments self). is_drum i \<and> events i \<noteq> [] \<and> (\<forall>n \<in> set (events i). 0 \<le> endt n)"
  shows "\<exists>len > 0. mix_waveforms self fs wave = Inr (replicate len 0)"
proof -
  have "\<exists>ws. map_err (\<lambda>i. synthesize i fs wave) (instruments self) = Inr ws \<and>
          length ws = length (instruments self) \<and> (\<forall>w \<in> set ws. \<exists>n > 0. w = replicate n 0)"
  proof (rule map_err_total)
    fix i assume "i \<in> set (instruments self)"
    then show "\<exists>y. synthesize i fs wave = Inr y \<and> (\<exists>n > 0. y = replicate n 0)"
      using synthesize_drum[of i fs wave] assms(2,3) by auto
  qed
  then obtain ws where ws: "map_err (\<lambda>i. synthesize i fs wave) (instruments self) = Inr ws"
    "length ws = length (instruments self)" "\<forall>w \<in> set ws. \<exists>n > 0. w = replicate n 0"
    by blast
  have ne: "ws \<noteq> []" using ws(2) assms(1) by auto
  obtain len where len: "py_max (map length ws) = Inr len"
    using py_max_total[of "map length ws"] ne by auto
  have lin: "len \<in> set (map length ws)" and lmax: "\<forall>y \<in> set (map length ws). y \<le> len"
    using py_max_Inr[OF len] by auto
  have pos: "0 < len" using lin ws(3) by auto
  have "fold (\<lambda>waveform acc. add_waveform acc waveform) ws (replicate len 0) = replicate len 0"
  proof (rule fold_add_waveform_zero)
    fix w assume w: "w \<in> set ws"
    then obtain n where "w = replicate n 0" using ws(3) by blast
    moreover have "length w \<le> len" using lmax w by simp
    ultimately show "\<exists>n \<le> len. w = replicate n 0" by auto
  qed
  then show ?thesis using ws(1) len pos by (auto simp: mix_waveforms_def)
qed

text \<open>
  The claim C7 as stated fails on its second half: a file with one note on channel 0 whose
  Note Off is at the tick of its Note On has a non-drum note (of zero length), the mix is
  silent, and the normalization divides the zero buffer by its zero peak: no sample of the
  output has absolute value 1.
\<close>

theorem silent_mix_counterexample:
  "init [[NoteOn 0 0 60 100, NoteOff 0 0 60 64]] 2 =
     Inr \<lparr>resolution = 2, tick_scales = [(0, 1 / 4)], tick_to_time = [0],
          instruments = [\<lparr>program = 0, is_drum = False,
                           events = [\<lparr>velocity = 64, pitch = 60, start = 0, endt = 0\<rparr>],
                           pitch_changes = []\<rparr>]\<rparr> \<and>
   PrettyMIDI_synthesize
     \<lparr>resolution = 2, tick_scales = [(0, 1 / 4)], tick_to_time = [0],
      instruments = [\<lparr>program = 0, is_drum = False,
                       events = [\<lparr>velocity = 64, pitch = 60, start = 0, endt = 0\<rparr>],
                       pitch_changes = []\<rparr>]\<rparr> 44100 sin =
     Inr (replicate 44100 None) \<and>
   Some 1 \<notin> set (replicate 44100 (None :: real option)) \<and>
   Some (- 1) \<notin> set (replicate 44100 (None :: real option))"
proof -
  have a: "init [[NoteOn 0 0 60 100, NoteOff 0 0 60 64]] 2 =
     Inr \<lparr>resolution = 2, tick_scales = [(0, 1 / 4)], tick_to_time = [0],
          instruments = [\<lparr>program = 0, is_drum = False,
                           events = [\<lparr>velocity = 64, pitch = 60, start = 0, endt = 0\<rparr>],
                           pitch_changes = []\<rparr>]\<rparr>"
    by (simp add: ev_simps)
  have b: "PrettyMIDI_synthesize
     \<lparr>resolution = 2, tick_scales = [(0, 1 / 4)], tick_to_time = [0],
      instruments = [\<lparr>program = 0, is_drum = False,
                       events = [\<lparr>velocity = 64, pitch = 60, start = 0, endt = 0\<rparr>],
                       pitch_changes = []\<rparr>]\<rparr> 44100 sin =
     Inr (replicate 44100 None)"
    by (simp add: synth_simps py_max_replicate)
  show ?thesis using a b by simp
qed

text \<open>
  C7, as amended. For an input with at least one instrument, all of them drums (with a
  sampling rate of at least 1 and note ends that are not negative), the synthesis returns
  without raising: the division of the zero buffer by its zero peak is not an exception
  in numpy, and every sample of the output is the result of \<open>0 / 0\<close>. Whenever the
  synthesis returns and the mix before normalization has a non-zero sample, every sample
  of the output is a number of absolute value at most 1 and one of them has absolute value
  exactly 1; whenever the mix is silent, every sample is the result of \<open>0 / 0\<close>.
\<close>

theorem synthesize_peak:
  "(instruments self \<noteq> [] \<and> 1 \<le> fs \<and>
      (\<forall>i \<in> set (instruments self).
          is_drum i \<and> events i \<noteq> [] \<and> (\<forall>n \<in> set (events i). 0 \<le> endt n)) \<longrightarrow>
      (\<exists>len > 0. PrettyMIDI_synthesize self fs wave = Inr (replicate len None))) \<and>
   (\<forall>out. PrettyMIDI_synthesize self fs wave = Inr out \<longrightarrow>
      (\<exists>mix. mix_waveforms self fs wave = Inr mix \<and> length out = length mix \<and>
         ((\<exists>x \<in> set mix. x \<noteq> 0) \<longrightarrow>
            (\<forall>s \<in> set out. \<exists>y. s = Some y \<and> \<bar>y\<bar> \<le> 1) \<and>
            (\<exists>s \<in> set out. \<exists>y. s = Some y \<and> \<bar>y\<bar> = 1)) \<and>
         ((\<forall>x \<in> set mix. x = 0) \<longrightarrow> (\<forall>s \<in> set out. s = None))))"
proof (intro conjI impI allI)
  assume a: "instruments self \<noteq> [] \<and> 1 \<le> fs \<and>
      (\<forall>i \<in> set (instruments self).
          is_drum i \<and> events i \<noteq> [] \<and> (\<forall>n \<in> set (events i). 0 \<le> endt n))"
  then obtain len where len: "0 < len" "mix_waveforms self fs wave = Inr (replicate len 0)"
    using all_drum_mix[of self fs wave] by blast
  then have "PrettyMIDI_synthesize self fs wave = Inr (replicate len None)"
    by (simp add: PrettyMIDI_synthesize_def normalize_zero)
  then show "\<exists>len > 0. PrettyMIDI_synthesize self fs wave = Inr (replicate len None)"
    using len(1) by blast
next
  fix out
  assume o: "PrettyMIDI_synthesize self fs wave = Inr out"
  then obtain mix where mix: "mix_waveforms self fs wave = Inr mix" and n: "normalize mix = Inr out"
    by (auto simp: PrettyMIDI_synthesize_def split: sum.splits)
  show "\<exists>mix. mix_waveforms self fs wave = Inr mix \<and> length out = length mix \<and>
         ((\<exists>x \<in> set mix. x \<noteq> 0) \<longrightarrow>
            (\<forall>s \<in> set out. \<exists>y. s = Some y \<and> \<bar>y\<bar> \<le> 1) \<and>
            (\<exists>s \<in> set out. \<exists>y. s = Some y \<and> \<bar>y\<bar> = 1)) \<and>
         ((\<forall>x \<in> set mix. x = 0) \<longrightarrow> (\<forall>s \<in> set out. s = None))"
    using mix normalize_Inr[OF n] by blast
qed


theorem synthesize_peak_witness:
  "instruments (\<lparr>resolution = 2, tick_scales = [(0, 1 / 4)], tick_to_time = [0, 1 / 4],
      instruments = [\<lparr>program = 0, is_drum = True,
                       events = [\<lparr>velocity = 64, pitch = 36, start = 0, endt = 1 / 4\<rparr>],
                       pitch_changes = []\<rparr>]\<rparr>) \<noteq> [] \<and> (1::real) \<le> 10 \<and>
   list_all (\<lambda>i. is_drum i \<and> events i \<noteq> [] \<and> list_all (\<lambda>n. 0 \<le> endt n) (events i))
     (instruments (\<lparr>resolution = 2, tick_scales = [(0, 1 / 4)], tick_to_time = [0, 1 / 4],
      instruments = [\<lparr>program = 0, is_drum = True,
                       events = [\<lparr>velocity = 64, pitch = 36, start = 0, endt = 1 / 4\<rparr>],
                       pitch_changes = []\<rparr>]\<rparr>)) \<and>
   (\<exists>len > 0. PrettyMIDI_synthesize (\<lparr>resolution = 2, tick_scales = [(0, 1 / 4)], tick_to_time = [0, 1 / 4],
      instruments = [\<lparr>program = 0, is_drum = True,
                       events = [\<lparr>velocity = 64, pitch = 36, start = 0, endt = 1 / 4\<rparr>],
                       pitch_changes = []\<rparr>]\<rparr>) 10 sin = Inr (replicate len None)) \<and>
   PrettyMIDI_synthesize (\<lparr>resolution = 2, tick_scales = [(0, 1 / 4)], tick_to_time = [0, 1 / 4],
      instruments = [\<lparr>program = 0, is_drum = False,
                       events = [\<lparr>velocity = 64, pitch = 60, start = 0, endt = 1 / 10\<rparr>],
                       pitch_changes = []\<rparr>]\<rparr>) 10 cos = Inr (Some 1 # replicate 10 (Some 0)) \<and>
   mix_waveforms (\<lparr>resolution = 2, tick_scales = [(0, 1 / 4)], tick_to_time = [0, 1 / 4],
      instruments = [\<lparr>program = 0, is_drum = False,
                       events = [\<lparr>velocity = 64, pitch = 60, start = 0, endt = 1 / 10\<rparr>],
                       pitch_changes = []\<rparr>]\<rparr>) 10 cos = Inr (64 # replicate 10 0) \<and>
   (\<exists>x \<in> set (64 # replicate 10 (0::real)). x \<noteq> 0) \<and>
   (\<exists>s \<in> set (Some 1 # replicate 10 (Some (0::real))). \<exists>y. s = Some y \<and> \<bar>y\<bar> = 1)"
proof -
  have h1: "instruments (\<lparr>resolution = 2, tick_scales = [(0, 1 / 4)], tick_to_time = [0, 1 / 4],
      instruments = [\<lparr>program = 0, is_drum = True,
                       events = [\<lparr>velocity = 64, pitch = 36, start = 0, endt = 1 / 4\<rparr>],
                       pitch_changes = []\<rparr>]\<rparr>) \<noteq> [] \<and> (1::real) \<le> 10 \<and>
   (\<forall>i \<in> set (instruments (\<lparr>resolution = 2, tick_scales = [(0, 1 / 4)], tick_to_time = [0, 1 / 4],
      instruments = [\<lparr>program = 0, is_drum = True,
                       events = [\<lparr>velocity = 64, pitch = 36, start = 0, endt = 1 / 4\<rparr>],
                       pitch_changes = []\<rparr>]\<rparr>)).
       is_drum i \<and> events i \<noteq> [] \<and> (\<forall>n \<in> set (events i). 0 \<le> endt n))"
    by simp
  have h1': "list_all (\<lambda>i. is_drum i \<and> events i \<noteq> [] \<and> list_all (\<lambda>n. 0 \<le> endt n) (events i))
     (instruments (\<lparr>resolution = 2, tick_scales = [(0, 1 / 4)], tick_to_time = [0, 1 / 4],
      instruments = [\<lparr>program = 0, is_drum = True,
                       events = [\<lparr>velocity = 64, pitch = 36, start = 0, endt = 1 / 4\<rparr>],
                       pitch_changes = []\<rparr>]\<rparr>))"
    by simp
  have h2: "mix_waveforms (\<lparr>resolution = 2, tick_scales = [(0, 1 / 4)], tick_to_time = [0, 1 / 4],
      instruments = [\<lparr>program = 0, is_drum = False,
                       events = [\<lparr>velocity = 64, pitch = 60, start = 0, endt = 1 / 10\<rparr>],
                       pitch_changes = []\<rparr>]\<rparr>) 10 cos = Inr (64 # replicate 10 0)"
  proof -
    have r: "replicate 11 (0::real) = 0 # replicate 10 0"
      by (simp add: numeral_eq_Suc)
    show ?thesis by (simp add: synth_simps r zip_replicate)
  qed
  have h3: "PrettyMIDI_synthesize (\<lparr>resolution = 2, tick_scales = [(0, 1 / 4)], tick_to_time = [0, 1 / 4],
      instruments = [\<lparr>program = 0, is_drum = False,
                       events = [\<lparr>velocity = 64, pitch = 60, start = 0, endt = 1 / 10\<rparr>],
                       pitch_changes = []\<rparr>]\<rparr>) 10 cos = Inr (Some 1 # replicate 10 (Some 0))"
    by (simp add: PrettyMIDI_synthesize_def h2 normalize_def np_divide_def fold_max_replicate_le
          del: fold_replicate)
  have h4: "\<exists>x \<in> set (64 # replicate 10 (0::real)). x \<noteq> 0" by simp
  have c1: "\<exists>len > 0. PrettyMIDI_synthesize (\<lparr>resolution = 2, tick_scales = [(0, 1 / 4)], tick_to_time = [0, 1 / 4],
      instruments = [\<lparr>program = 0, is_drum = True,
                       events = [\<lparr>velocity = 64, pitch = 36, start = 0, endt = 1 / 4\<rparr>],
                       pitch_changes = []\<rparr>]\<rparr>) 10 sin = Inr (replicate len None)"
    using synthesize_peak[of "(\<lparr>resolution = 2, tick_scales = [(0, 1 / 4)], tick_to_time = [0, 1 / 4],
      instruments = [\<lparr>program = 0, is_drum = True,
                       events = [\<lparr>velocity = 64, pitch = 36, start = 0, endt = 1 / 4\<rparr>],
                       pitch_changes = []\<rparr>]\<rparr>)" 10 sin, THEN conjunct1] h1 by blast
  have c2: "\<exists>s \<in> set (Some 1 # replicate 10 (Some (0::real))). \<exists>y. s = Some y \<and> \<bar>y\<bar> = 1"
    using synthesize_peak[of "(\<lparr>resolution = 2, tick_scales = [(0, 1 / 4)], tick_to_time = [0, 1 / 4],
      instruments = [\<lparr>program = 0, is_drum = False,
                       events = [\<lparr>velocity = 64, pitch = 60, start = 0, endt = 1 / 10\<rparr>],
                       pitch_changes = []\<rparr>]\<rparr>)" 10 cos, THEN conjunct2] h2 h3 h4 by fastforce
  show ?thesis using h1 h1' h2 h3 h4 c1 c2 by (intro conjI) blast+
qed

section \<open>Errors raised by the constructor and the queries\<close>

text \<open>
  C8. The claim is that construction and the queries never raise, also when a track, the
  instrument list or a note list is empty. A file with one track that holds a tempo event
  and no note is constructed with an empty instrument list, on which get\_piano\_roll and
  synthesize raise ValueError (\<^verbatim>\<open>np.max\<close> of an empty list); a file with an empty
  track makes the constructor raise ValueError (\<^verbatim>\<open>max\<close> of an empty list); and an
  instrument without events, for which get\_piano\_roll returns the empty matrix, makes
  Instrument.synthesize raise ValueError.
\<close>

theorem empty_lists_raise:
  "init [[SetTempo 0 120, Other 4]] 2 = Inr (\<lparr>resolution = 2, tick_scales = [(0, 1 / 4)],
        tick_to_time = [0, 1 / 4, 1 / 2, 3 / 4, 1], instruments = []\<rparr>) \<and>
   PrettyMIDI_get_piano_roll (\<lparr>resolution = 2, tick_scales = [(0, 1 / 4)],
        tick_to_time = [0, 1 / 4, 1 / 2, 3 / 4, 1], instruments = []\<rparr>) None = Inl ValueError \<and>
   PrettyMIDI_synthesize (\<lparr>resolution = 2, tick_scales = [(0, 1 / 4)],
        tick_to_time = [0, 1 / 4, 1 / 2, 3 / 4, 1], instruments = []\<rparr>) 44100 sin = Inl ValueError \<and>
   init [[NoteOn 0 0 60 100, NoteOff 4 0 60 64], []] 2 = Inl ValueError \<and>
   get_piano_roll (Instrument 0 False) None = Inr (replicate 128 []) \<and>
   synthesize (Instrument 0 False) 44100 sin = Inl ValueError"
proof -
  have a: "init [[SetTempo 0 120, Other 4]] 2 = Inr (\<lparr>resolution = 2, tick_scales = [(0, 1 / 4)],
        tick_to_time = [0, 1 / 4, 1 / 2, 3 / 4, 1], instruments = []\<rparr>)"
    by (simp add: ev_simps upt_rec numeral_eq_Suc)
  have b: "PrettyMIDI_get_piano_roll (\<lparr>resolution = 2, tick_scales = [(0, 1 / 4)],
        tick_to_time = [0, 1 / 4, 1 / 2, 3 / 4, 1], instruments = []\<rparr>) None = Inl ValueError"
    by (simp add: PrettyMIDI_get_piano_roll_def)
  have c: "PrettyMIDI_synthesize (\<lparr>resolution = 2, tick_scales = [(0, 1 / 4)],
        tick_to_time = [0, 1 / 4, 1 / 2, 3 / 4, 1], instruments = []\<rparr>) 44100 sin = Inl ValueError"
    by (simp add: PrettyMIDI_synthesize_def mix_waveforms_def)
  have d: "init [[NoteOn 0 0 60 100, NoteOff 4 0 60 64], []] 2 = Inl ValueError"
    by (simp add: init_def get_tempo_changes_def tick_scale_of_def compute_max_tick_def)
  have e: "get_piano_roll (Instrument 0 False) None = Inr (replicate 128 [])"
    by (simp add: get_piano_roll_def Instrument_def)
  have f: "synthesize (Instrument 0 False) 44100 sin = Inl ValueError"
    by (simp add: synthesize_def Instrument_def)
  show ?thesis using a b c d e f by simp
qed

end
